theory Spec2Isabelle
  imports Complex_Main
begin

section \<open>Tensors in paired-real form\<close>

text \<open>
  A torch tensor is modelled by the identity of its storage, its shape and its entries in
  row-major order. Entries are real numbers: the rounding of the machine floats is not part
  of the model. No operation of \<^verbatim>\<open>node.py\<close> or \<^verbatim>\<open>tdd.py\<close> writes into an existing
  tensor, so the entries travel with the handle; \<open>storage\<close> records which tensors
  share memory (a view keeps it, \<^verbatim>\<open>clone\<close> draws a new one).
\<close>

record tensor =
  storage :: nat
  shape :: "nat list"
  data :: "real list"

datatype error = InvalidInput | IndexError | RuntimeError | HelperFailure

definition numel :: "nat list \<Rightarrow> nat" where
  "numel s = prod_list s"

text \<open>\<^verbatim>\<open>torch.round\<close> rounds halves to the even neighbour.\<close>

definition torch_round :: "real \<Rightarrow> int" where
  "torch_round x =
     (let f = \<lfloor>x\<rfloor> in
      if x - of_int f < 1 / 2 then f
      else if 1 / 2 < x - of_int f then f + 1
      else if even f then f else f + 1)"

definition EPS :: real where
  "EPS = 0.000001"

text \<open>
  \<^verbatim>\<open>.long()\<close> converts to a signed 64-bit integer. C++ leaves the conversion of a value
  outside that range undefined; the conversion instruction of x86-64 then gives the least
  64-bit integer, which is what is modelled here.
\<close>

definition long_cast :: "int \<Rightarrow> int" where
  "long_cast n = (if - (2 ^ 63) \<le> n \<and> n < 2 ^ 63 then n else - (2 ^ 63))"

text \<open>
  \<^verbatim>\<open>get_int_key = get_int_key_long\<close>: \<^verbatim>\<open>torch.round(weight/Node.EPS).long()\<close>, entrywise.
  The division is the exact one of the reals, not the rounded one of the floats.
\<close>

definition get_int_key :: "tensor \<Rightarrow> int list" where
  "get_int_key weight = map (\<lambda>x. long_cast (torch_round (x / EPS))) (data weight)"

text \<open>
  \<^verbatim>\<open>t.view(s)\<close> keeps storage and entries and fails when the number of entries differs.
\<close>

definition view :: "tensor \<Rightarrow> nat list \<Rightarrow> error + tensor" where
  "view t s = (if numel s = numel (shape t) then Inr (t\<lparr>shape := s\<rparr>) else Inl RuntimeError)"

text \<open>
  \<open>chunks k n xs\<close> cuts \<open>xs\<close> into \<open>k\<close> consecutive blocks of \<open>n\<close> entries.
\<close>

definition chunks :: "nat \<Rightarrow> nat \<Rightarrow> 'a list \<Rightarrow> 'a list list" where
  "chunks k n xs = map (\<lambda>i. take n (drop (i * n) xs)) [0..<k]"

text \<open>
  Entries of a tensor of shape \<open>src\<close> expanded to the shape \<open>tgt\<close> of the same rank:
  an axis of length 1 is repeated, an axis of equal length is kept.
\<close>

fun broadcast_data :: "nat list \<Rightarrow> nat list \<Rightarrow> 'a list \<Rightarrow> 'a list" where
  "broadcast_data (s # ss) (t # ts) xs =
     (if s = t then concat (map (broadcast_data ss ts) (chunks s (numel ss) xs))
      else concat (replicate t (broadcast_data ss ts xs)))"
| "broadcast_data _ _ xs = xs"

fun broadcastable :: "nat list \<Rightarrow> nat list \<Rightarrow> bool" where
  "broadcastable [] [] = True"
| "broadcastable (s # ss) (t # ts) = ((s = t \<or> s = 1) \<and> broadcastable ss ts)"
| "broadcastable _ _ = False"

text \<open>
  \<^verbatim>\<open>t.broadcast_to(s)\<close>: the shape of \<open>t\<close> is padded with leading 1s to the rank of
  \<open>s\<close>; the result is a view on the storage of \<open>t\<close>.
\<close>

definition broadcast_to :: "tensor \<Rightarrow> nat list \<Rightarrow> error + tensor" where
  "broadcast_to t s =
     (if length s < length (shape t) then Inl RuntimeError
      else let src = replicate (length s - length (shape t)) 1 @ shape t in
        if broadcastable src s
        then Inr (t\<lparr>shape := s, data := broadcast_data src s (data t)\<rparr>)
        else Inl RuntimeError)"

section \<open>Nodes and the unique table\<close>

text \<open>
  A \<^verbatim>\<open>Node\<close> object is never mutated after its construction, so a reference to it is
  modelled by its fields together with \<open>uid\<close>, the identity of the object; \<open>None\<close> is
  the terminal. Every construction draws \<open>uid\<close> from the allocator of the state.
\<close>

datatype node = Node (uid: nat) (id: int) (order: int) (out_weights: tensor)
  (successors: "node option list")

definition TERMINAL_ID :: int where
  "TERMINAL_ID = -1"

definition index_range :: "node \<Rightarrow> nat" where
  "index_range n = length (successors n)"

text \<open>
  An element of the key tuple: a Python int, or a successor, which the tuple compares by
  object identity (\<^verbatim>\<open>Node\<close> defines no \<^verbatim>\<open>__eq__\<close>).
\<close>

datatype key_elem = KInt int | KSucc "nat option"

type_synonym key = "key_elem list"

record state =
  unique_table :: "(key \<times> node) list"
  global_node_id :: int
  next_obj :: nat

definition get_unique_key :: "int \<Rightarrow> tensor \<Rightarrow> node option list \<Rightarrow> key" where
  "get_unique_key ord ws succ_nodes =
     [KInt ord] @ map KInt (get_int_key ws) @ map (\<lambda>s. KSucc (map_option uid s)) succ_nodes"

definition unique_key :: "node \<Rightarrow> key" where
  "unique_key n = get_unique_key (order n) (out_weights n) (successors n)"

definition reset :: "state \<Rightarrow> state" where
  "reset st = st\<lparr>unique_table := [], global_node_id := 0\<rparr>"

text \<open>\<^verbatim>\<open>t.clone().detach()\<close>: the same entries on a storage of its own.\<close>

definition clone :: "state \<Rightarrow> tensor \<Rightarrow> tensor \<times> state" where
  "clone st t = (t\<lparr>storage := next_obj st\<rparr>, st\<lparr>next_obj := Suc (next_obj st)\<rparr>)"

definition get_unique_node :: "state \<Rightarrow> int \<Rightarrow> tensor \<Rightarrow> node option list \<Rightarrow> node \<times> state" where
  "get_unique_node st ord ws succ_nodes =
     (let temp_key = get_unique_key ord ws succ_nodes in
      case map_of (unique_table st) temp_key of
        Some n \<Rightarrow> (n, st)
      | None \<Rightarrow>
          let st1 = st\<lparr>global_node_id := global_node_id st + 1\<rparr>;
              (w, st2) = clone st1 ws;
              res = Node (next_obj st2) (global_node_id st1) ord w succ_nodes
          in (res, st2\<lparr>unique_table := (temp_key, res) # unique_table st2,
                       next_obj := Suc (next_obj st2)\<rparr>))"

text \<open>
  \<^verbatim>\<open>Node.duplicate\<close>. The view and the broadcast come before the successors are
  rebuilt, so a failing view raises before the table is touched. The recursive call of
  the source passes \<^verbatim>\<open>extra_shape_ahead\<close> and leaves \<^verbatim>\<open>extra_shape_behind\<close> at its
  default \<^verbatim>\<open>()\<close>.
\<close>

fun duplicate ::
    "state \<Rightarrow> node option \<Rightarrow> nat list \<Rightarrow> int \<Rightarrow> nat list \<Rightarrow> nat list
      \<Rightarrow> error + (node option \<times> state)"
  and duplicate_list ::
    "state \<Rightarrow> node option list \<Rightarrow> nat list \<Rightarrow> int \<Rightarrow> nat list
      \<Rightarrow> error + (node option list \<times> state)"
where
  "duplicate st None parallel_shape init_order extra_shape_ahead extra_shape_behind =
     Inr (None, st)"
| "duplicate st (Some (Node u i ord ws succs)) parallel_shape init_order
       extra_shape_ahead extra_shape_behind =
     (case view ws ([length succs] @ replicate (length extra_shape_ahead) 1
                     @ parallel_shape @ replicate (length extra_shape_behind) 1 @ [2]) of
        Inl e \<Rightarrow> Inl e
      | Inr w1 \<Rightarrow>
         (case broadcast_to w1 ([length succs] @ extra_shape_ahead @ parallel_shape
                                 @ extra_shape_behind @ [2]) of
            Inl e \<Rightarrow> Inl e
          | Inr weights \<Rightarrow>
             (case duplicate_list st succs parallel_shape init_order extra_shape_ahead of
                Inl e \<Rightarrow> Inl e
              | Inr (new_succs, st') \<Rightarrow>
                 (case get_unique_node st' (ord + init_order) weights new_succs of
                    (res, st'') \<Rightarrow> Inr (Some res, st'')))))"
| "duplicate_list st [] parallel_shape init_order extra_shape_ahead = Inr ([], st)"
| "duplicate_list st (s # ss) parallel_shape init_order extra_shape_ahead =
     (case duplicate st s parallel_shape init_order extra_shape_ahead [] of
        Inl e \<Rightarrow> Inl e
      | Inr (r, st') \<Rightarrow>
         (case duplicate_list st' ss parallel_shape init_order extra_shape_ahead of
            Inl e \<Rightarrow> Inl e
          | Inr (rs, st'') \<Rightarrow> Inr (r # rs, st'')))"

text \<open>\<^verbatim>\<open>Node.__direct_append\<close>: every terminal reachable from \<open>a\<close> becomes \<open>b\<close>.\<close>

fun direct_append :: "state \<Rightarrow> node option \<Rightarrow> node option \<Rightarrow> node option \<times> state"
  and direct_append_list ::
    "state \<Rightarrow> node option list \<Rightarrow> node option \<Rightarrow> node option list \<times> state"
where
  "direct_append st None b = (b, st)"
| "direct_append st (Some (Node u i ord ws succs)) b =
     (case direct_append_list st succs b of
        (new_successors, st') \<Rightarrow>
          (case get_unique_node st' ord ws new_successors of
             (res, st'') \<Rightarrow> (Some res, st'')))"
| "direct_append_list st [] b = ([], st)"
| "direct_append_list st (s # ss) b =
     (case direct_append st s b of
        (r, st') \<Rightarrow>
          (case direct_append_list st' ss b of
             (rs, st'') \<Rightarrow> (r # rs, st'')))"

definition append ::
    "state \<Rightarrow> node option \<Rightarrow> nat list \<Rightarrow> int \<Rightarrow> node option \<Rightarrow> nat list \<Rightarrow> bool
      \<Rightarrow> error + (node option \<times> state)" where
  "append st a parallel_shape_a depth b parallel_shape_b parallel_tensor =
     (if \<not> parallel_tensor then
        (case duplicate st b parallel_shape_b depth [] [] of
           Inl e \<Rightarrow> Inl e
         | Inr (modifided_node, st') \<Rightarrow> Inr (direct_append st' a modifided_node))
      else
        (case duplicate st b parallel_shape_b depth parallel_shape_a [] of
           Inl e \<Rightarrow> Inl e
         | Inr (b_node_broadcasted, st') \<Rightarrow>
            (case duplicate st' a parallel_shape_a 0 [] parallel_shape_b of
               Inl e \<Rightarrow> Inl e
             | Inr (a_node_broadcasted, st'') \<Rightarrow>
                 Inr (direct_append st'' a_node_broadcasted b_node_broadcasted))))"

section \<open>Layout\<close>

text \<open>
  Python indexing of a list: a negative index counts from the end, an index out of range
  raises.
\<close>

definition py_index :: "'a list \<Rightarrow> int \<Rightarrow> error + 'a" where
  "py_index xs i =
     (if 0 \<le> i \<and> i < int (length xs) then Inr (xs ! nat i)
      else if i < 0 \<and> - int (length xs) \<le> i then Inr (xs ! nat (int (length xs) + i))
      else Inl IndexError)"

text \<open>\<^verbatim>\<open>t[k]\<close>: the \<open>k\<close>-th slice along the first axis, a view on \<open>t\<close>.\<close>

definition tindex :: "tensor \<Rightarrow> nat \<Rightarrow> error + tensor" where
  "tindex t k =
     (case shape t of
        [] \<Rightarrow> Inl IndexError
      | n # rest \<Rightarrow>
          if k < n
          then Inr (t\<lparr>shape := rest, data := take (numel rest) (drop (k * numel rest) (data t))\<rparr>)
          else Inl IndexError)"

text \<open>\<^verbatim>\<open>t.item()\<close>: the value of a tensor of exactly one entry.\<close>

definition item :: "tensor \<Rightarrow> error + real" where
  "item t = (case data t of [x] \<Rightarrow> Inr x | _ \<Rightarrow> Inl RuntimeError)"

text \<open>\<^verbatim>\<open>round(x, 2)\<close> of Python, halves to the even neighbour.\<close>

definition round2 :: "real \<Rightarrow> real" where
  "round2 x = of_int (torch_round (x * 100)) / 100"

text \<open>The attribute \<^verbatim>\<open>imag\<close> of a Python float, which is a real number.\<close>

definition float_imag :: "real \<Rightarrow> real" where
  "float_imag x = 0"

text \<open>
  The graph under construction. A vertex id \<^verbatim>\<open>str(i)\<close> is kept as the integer \<open>i\<close>,
  and a label as the value that the source turns into text: \<^verbatim>\<open>'i'+str(j)\<close> is
  \<open>VIndex j\<close>, \<^verbatim>\<open>str(1)\<close> is \<open>VOne\<close>, \<^verbatim>\<open>str(complex(re, im))\<close> is \<open>LComplex re im\<close>.
\<close>

datatype vlabel = VIndex int | VOne

datatype elabel = LComplex real real | LTensor tensor | LShape "nat list"

record digraph =
  vertices :: "(int \<times> vlabel) list"
  edges :: "(int \<times> int \<times> string \<times> elabel) list"

definition dot_node :: "digraph \<Rightarrow> int \<Rightarrow> vlabel \<Rightarrow> digraph" where
  "dot_node dot i l = dot\<lparr>vertices := vertices dot @ [(i, l)]\<rparr>"

definition dot_edge :: "digraph \<Rightarrow> int \<Rightarrow> int \<Rightarrow> string \<Rightarrow> elabel \<Rightarrow> digraph" where
  "dot_edge dot a b c l = dot\<lparr>edges := edges dot @ [(a, b, c, l)]\<rparr>"

definition col :: "string list" where
  "col = [''red'', ''blue'', ''black'', ''green'']"

text \<open>The label \<^verbatim>\<open>label1\<close> of the edge of branch \<open>k\<close>.\<close>

definition edge_label :: "tensor \<Rightarrow> nat \<Rightarrow> nat list \<Rightarrow> bool \<Rightarrow> error + elabel" where
  "edge_label ws k parallel_shape full_output =
     (case tindex ws 0 of
        Inl e \<Rightarrow> Inl e
      | Inr w0 \<Rightarrow>
          if shape w0 = [2] then
            (case tindex ws k of
               Inl e \<Rightarrow> Inl e
             | Inr wk \<Rightarrow>
                (case tindex wk 0 of
                   Inl e \<Rightarrow> Inl e
                 | Inr re \<Rightarrow>
                    (case item re of
                       Inl e \<Rightarrow> Inl e
                     | Inr x \<Rightarrow>
                        (case tindex wk 1 of
                           Inl e \<Rightarrow> Inl e
                         | Inr im \<Rightarrow>
                            (case item im of
                               Inl e \<Rightarrow> Inl e
                             | Inr y \<Rightarrow> Inr (LComplex (round2 x) (round2 (float_imag y))))))))
          else if full_output then
            (case tindex ws k of
               Inl e \<Rightarrow> Inl e
             | Inr wk \<Rightarrow> Inr (LTensor wk))
          else Inr (LShape parallel_shape))"

definition node_id_of :: "node option \<Rightarrow> int" where
  "node_id_of temp = (case temp of None \<Rightarrow> TERMINAL_ID | Some n \<Rightarrow> id n)"

text \<open>
  \<^verbatim>\<open>x in succ\<close> compares the entries of the list with \<open>x\<close> by object identity.
\<close>

definition visited :: "node option \<Rightarrow> node option list \<Rightarrow> bool" where
  "visited x succ = (map_option uid x \<in> set (map (map_option uid) succ))"

text \<open>
  \<^verbatim>\<open>Node.layout\<close>; \<open>layout_branches\<close> is its loop over \<open>k\<close>, entered with the branches
  from \<open>k\<close> on. The graph \<open>dot\<close> and the list \<open>succ\<close> are mutated by the source and are
  returned here.
\<close>

fun layout ::
    "node option \<Rightarrow> nat list \<Rightarrow> int list \<Rightarrow> digraph \<Rightarrow> node option list \<Rightarrow> bool \<Rightarrow> bool
      \<Rightarrow> error + (digraph \<times> node option list)"
  and layout_branches ::
    "int \<Rightarrow> tensor \<Rightarrow> nat \<Rightarrow> node option list \<Rightarrow> nat list \<Rightarrow> int list \<Rightarrow> digraph
      \<Rightarrow> node option list \<Rightarrow> bool \<Rightarrow> bool \<Rightarrow> error + (digraph \<times> node option list)"
where
  "layout None parallel_shape index_order dot succ real_label full_output =
     Inr (dot_node dot TERMINAL_ID VOne, succ)"
| "layout (Some (Node u i ord ws succs)) parallel_shape index_order dot succ
       real_label full_output =
     (case py_index index_order ord of
        Inl e \<Rightarrow> Inl e
      | Inr j \<Rightarrow>
          layout_branches i ws 0 succs parallel_shape index_order
            (dot_node dot i (VIndex j)) succ real_label full_output)"
| "layout_branches i ws k [] parallel_shape index_order dot succ real_label full_output =
     Inr (dot, succ)"
| "layout_branches i ws k (temp # rest) parallel_shape index_order dot succ
       real_label full_output =
     (case edge_label ws k parallel_shape full_output of
        Inl e \<Rightarrow> Inl e
      | Inr label1 \<Rightarrow>
          if \<not> visited temp succ then
            (case layout temp parallel_shape index_order dot succ real_label full_output of
               Inl e \<Rightarrow> Inl e
             | Inr (dot', succ') \<Rightarrow>
                 layout_branches i ws (Suc k) rest parallel_shape index_order
                   (dot_edge dot' i (node_id_of temp) (col ! (k mod 4)) label1)
                   (succ' @ [temp]) real_label full_output)
          else
            layout_branches i ws (Suc k) rest parallel_shape index_order
              (dot_edge dot i (node_id_of temp) (col ! (k mod 4)) label1)
              succ real_label full_output)"

section \<open>The tensor facade\<close>

text \<open>
  A Python list of ints whose identity matters: the object \<open>lid\<close> and its elements.
\<close>

record pylist =
  lid :: nat
  elems :: "int list"

text \<open>
  The process as the facade sees it: the state of the node layer, and the list objects that
  exist, each with its elements under its identity. A list that the code mutated would
  change its entry here; the helpers of the node layer and \<^verbatim>\<open>weighted_node\<close> are never
  handed a list, so they work on \<open>core\<close> alone.
\<close>

record world =
  core :: state
  lists :: "nat \<Rightarrow> int list option"

definition new_list :: "world \<Rightarrow> int list \<Rightarrow> pylist \<times> world" where
  "new_list w xs =
     (\<lparr>lid = next_obj (core w), elems = xs\<rparr>,
      w\<lparr>core := (core w)\<lparr>next_obj := Suc (next_obj (core w))\<rparr>,
        lists := (lists w)(next_obj (core w) \<mapsto> xs)\<rparr>)"

text \<open>
  The fields of a \<^verbatim>\<open>TDD\<close>. The identity of the list in \<open>data_shape\<close> is not followed.
\<close>

record TDD =
  weights :: tensor
  data_shape :: "nat list"
  node :: "node option"
  index_order :: pylist

text \<open>\<^verbatim>\<open>list(tensor.shape[len(parallel_shape):-1])\<close>\<close>

definition data_shape_of :: "tensor \<Rightarrow> nat list \<Rightarrow> nat list" where
  "data_shape_of t parallel_shape = drop (length parallel_shape) (butlast (shape t))"

text \<open>A torch axis argument: negative axes count from the end.\<close>

definition resolve_dim :: "nat \<Rightarrow> int \<Rightarrow> error + nat" where
  "resolve_dim r axis =
     (if - int r \<le> axis \<and> axis < int r
      then Inr (nat (if axis < 0 then axis + int r else axis))
      else Inl IndexError)"

text \<open>
  \<open>narrow t d start len\<close> is the view on the entries \<open>start \<dots> start + len - 1\<close> of
  axis \<open>d\<close>.
\<close>

definition narrow :: "tensor \<Rightarrow> nat \<Rightarrow> nat \<Rightarrow> nat \<Rightarrow> tensor" where
  "narrow t d start len =
     (let s = shape t; n = s ! d; inner = numel (drop (Suc d) s); outer = numel (take d s)
      in t\<lparr>shape := s[d := len],
           data := concat (map (\<lambda>b. take (len * inner) (drop ((b * n + start) * inner) (data t)))
                     [0..<outer])\<rparr>)"

text \<open>
  \<^verbatim>\<open>tensor.split(1, axis)\<close>: views of length 1 along the axis; an axis of length 0 gives
  one empty piece, a tensor without axes is refused.
\<close>

definition split1 :: "tensor \<Rightarrow> int \<Rightarrow> error + tensor list" where
  "split1 t axis =
     (if shape t = [] then Inl RuntimeError
      else case resolve_dim (length (shape t)) axis of
        Inl e \<Rightarrow> Inl e
      | Inr d \<Rightarrow>
          if shape t ! d = 0 then Inr [t]
          else Inr (map (\<lambda>i. narrow t d i 1) [0..<shape t ! d]))"

text \<open>\<^verbatim>\<open>tensor[...,0:1,:]\<close>\<close>

definition leaf_slice :: "tensor \<Rightarrow> error + tensor" where
  "leaf_slice t =
     (let r = length (shape t) in
      if r < 2 then Inl IndexError
      else Inr (narrow t (r - 2) 0 (min 1 (shape t ! (r - 2)))))"

text \<open>
  \<^verbatim>\<open>torch.stack\<close> along a new first axis, into a new storage; it refuses an empty list
  and tensors of different shapes.
\<close>

definition stack :: "state \<Rightarrow> tensor list \<Rightarrow> error + (tensor \<times> state)" where
  "stack st ts =
     (case ts of
        [] \<Rightarrow> Inl RuntimeError
      | t # rest \<Rightarrow>
          if list_all (\<lambda>t'. shape t' = shape t) rest
          then Inr (\<lparr>storage = next_obj st, shape = length ts # shape t,
                     data = concat (map data ts)\<rparr>,
                    st\<lparr>next_obj := Suc (next_obj st)\<rparr>)
          else Inl RuntimeError)"

text \<open>
  Modelled from the spec: \<^verbatim>\<open>CUDAcpl.ones\<close> is not among the sources. The spec gives "a
  paired-real constant array representing the complex scalar 1, broadcast across an
  arbitrary batch shape (real = 1, imag = 0, for every batch index)".
\<close>

definition ones :: "state \<Rightarrow> nat list \<Rightarrow> tensor \<times> state" where
  "ones st s =
     (\<lparr>storage = next_obj st, shape = s @ [2], data = concat (replicate (numel s) [1, 0])\<rparr>,
      st\<lparr>next_obj := Suc (next_obj st)\<rparr>)"

text \<open>The constructor \<^verbatim>\<open>Node(id, order, out_weights, successors)\<close>, outside the table.\<close>

definition construct_node :: "state \<Rightarrow> int \<Rightarrow> int \<Rightarrow> tensor \<Rightarrow> node option list \<Rightarrow> node \<times> state" where
  "construct_node st i ord ws succs = (Node (next_obj st) i ord ws succs, st\<lparr>next_obj := Suc (next_obj st)\<rparr>)"

text \<open>\<^verbatim>\<open>TDD(weights, [], node, [])\<close>\<close>

definition new_TDD :: "world \<Rightarrow> tensor \<Rightarrow> node option \<Rightarrow> TDD \<times> world" where
  "new_TDD w ws n =
     (case new_list w [] of
        (l, w') \<Rightarrow> (\<lparr>weights = ws, data_shape = [], node = n, index_order = l\<rparr>, w'))"

text \<open>A value that is returned, with the process as it is then.\<close>

definition returning :: "'a \<times> world \<Rightarrow> (error + 'a) \<times> world" where
  "returning r = (Inr (fst r), snd r)"

text \<open>
  \<^verbatim>\<open>weighted_node.normalized\<close> is not among the sources; the import takes it as the
  parameter \<open>N\<close>. It returns the node and the weight, or \<open>None\<close> for any exception it
  raises, and the state of the node layer as it leaves it.
\<close>

type_synonym normalizer =
  "state \<Rightarrow> node \<Rightarrow> tensor \<Rightarrow> bool \<Rightarrow> (node option \<times> tensor) option \<times> state"

text \<open>\<^verbatim>\<open>if index_order == []: index_order = list(range(len(data_shape)))\<close>\<close>

definition effective_order :: "int list \<Rightarrow> nat list \<Rightarrow> int list" where
  "effective_order iorder dshape =
     (if iorder = [] then map int [0..<length dshape] else iorder)"

text \<open>
  The bound on the depth of the recursion: the length of the index order in force.
\<close>

definition order_len :: "int list \<Rightarrow> tensor list \<Rightarrow> nat list \<Rightarrow> nat" where
  "order_len iorder ts parallel_shape =
     (if iorder = [] then Max (set (0 # map (\<lambda>t. length (data_shape_of t parallel_shape)) ts))
      else length iorder)"

text \<open>
  The branch of \<^verbatim>\<open>TDD.__as_tensor_iterate\<close> for a tensor that "is reduced to the
  [[...[val]...]] form": the leaf is a clone of the tensor, or of its first entry along
  the last data axis, viewed in the batch shape.
\<close>

definition as_tensor_leaf :: "world \<Rightarrow> tensor \<Rightarrow> nat list \<Rightarrow> nat list \<Rightarrow> (error + TDD) \<times> world" where
  "as_tensor_leaf w t parallel_shape dshape =
     (if length dshape = 0 then
        (case clone (core w) t of
           (ws, st1) \<Rightarrow> returning (new_TDD (w\<lparr>core := st1\<rparr>) ws None))
      else
        (case leaf_slice t of
           Inl e \<Rightarrow> (Inl e, w)
         | Inr v \<Rightarrow>
            (case clone (core w) v of
               (c, st1) \<Rightarrow>
                 (case view c (parallel_shape @ [2]) of
                    Inl e \<Rightarrow> (Inl e, w\<lparr>core := st1\<rparr>)
                  | Inr ws \<Rightarrow> returning (new_TDD (w\<lparr>core := st1\<rparr>) ws None)))))"

text \<open>
  The end of \<^verbatim>\<open>TDD.__as_tensor_iterate\<close>, "stack the sub-tdd" and "normalize at this
  depth": the node over the successors that the loop has built.
\<close>

definition as_tensor_stack :: "normalizer \<Rightarrow> world \<Rightarrow> nat \<Rightarrow> TDD list \<Rightarrow> (error + TDD) \<times> world" where
  "as_tensor_stack N w depth the_successors =
     (case stack (core w) (map weights the_successors) of
        Inl e \<Rightarrow> (Inl e, w)
      | Inr (out_ws, st2) \<Rightarrow>
         (case construct_node st2 0 (int depth) out_ws (map node the_successors) of
            (temp_node, st3) \<Rightarrow>
              (case ones st3 (butlast (tl (shape out_ws))) of
                 (dangle_weights, st4) \<Rightarrow>
                   (case N st4 temp_node dangle_weights False of
                      (None, st5) \<Rightarrow> (Inl HelperFailure, w\<lparr>core := st5\<rparr>)
                    | (Some (new_node, new_dangle_weights), st5) \<Rightarrow>
                        returning (new_TDD (w\<lparr>core := st5\<rparr>)
                          new_dangle_weights new_node)))))"

text \<open>
  \<^verbatim>\<open>TDD.__as_tensor_iterate\<close>; \<open>as_tensor_loop\<close> is its loop over \<open>k\<close>, which appends
  to \<open>the_successors\<close>. An exception leaves the process as it was when it was raised.
\<close>

function as_tensor_iterate ::
    "normalizer \<Rightarrow> world \<Rightarrow> tensor \<Rightarrow> nat list \<Rightarrow> int list \<Rightarrow> nat \<Rightarrow> (error + TDD) \<times> world"
  and as_tensor_loop ::
    "normalizer \<Rightarrow> world \<Rightarrow> tensor list \<Rightarrow> nat \<Rightarrow> nat \<Rightarrow> nat list \<Rightarrow> int list \<Rightarrow> nat
      \<Rightarrow> TDD list \<Rightarrow> (error + TDD list) \<times> world"
where
  "as_tensor_iterate N w t parallel_shape iorder depth =
     (let dshape = data_shape_of t parallel_shape;
          iorder = effective_order iorder dshape
      in
      if depth = length dshape then as_tensor_leaf w t parallel_shape dshape
      else
        (case py_index iorder (int depth) of
           Inl e \<Rightarrow> (Inl e, w)
         | Inr split_pos \<Rightarrow>
            (case split1 t (- int (length dshape) + split_pos - 1) of
               Inl e \<Rightarrow> (Inl e, w)
             | Inr split_tensor \<Rightarrow>
                (case py_index dshape split_pos of
                   Inl e \<Rightarrow> (Inl e, w)
                 | Inr n \<Rightarrow>
                    (case as_tensor_loop N w split_tensor 0 n parallel_shape iorder
                            (Suc depth) [] of
                       (Inl e, w1) \<Rightarrow> (Inl e, w1)
                     | (Inr the_successors, w1) \<Rightarrow>
                         as_tensor_stack N w1 depth the_successors)))))"
| "as_tensor_loop N w split_tensor k n parallel_shape iorder depth the_successors =
     (if k < n then
        (case py_index split_tensor (int k) of
           Inl e \<Rightarrow> (Inl e, w)
         | Inr piece \<Rightarrow>
            (case as_tensor_iterate N w piece parallel_shape iorder depth of
               (Inl e, w') \<Rightarrow> (Inl e, w')
             | (Inr res, w') \<Rightarrow>
                 as_tensor_loop N w' split_tensor (Suc k) n parallel_shape iorder depth
                   (the_successors @ [res])))
      else (Inr the_successors, w))"
  by pat_completeness auto

termination
proof (relation "inv_image (less_than <*lex*> less_than)
    (\<lambda>x. case x of
       Inl (N, st, t, ps, io, d) \<Rightarrow> (2 * (order_len io [t] ps - d), 0)
     | Inr (N, st, ts, k, n, ps, io, d, acc) \<Rightarrow> (2 * (order_len io ts ps - d) + 1, n - k))",
    goal_cases)
  case 1
  then show ?case by (intro wf_inv_image wf_lex_prod wf_less_than)
next
  case (2 N st t ps io d ds io' sp pieces n)
  then show ?case
    apply (auto simp: order_len_def effective_order_def py_index_def Let_def split: if_splits)
    done
next
  case (3 N st ts k n ps io d acc piece)
  then have k: "k < length ts" and p: "piece = ts ! k"
    by (auto simp: py_index_def Let_def split: if_splits)
  have "length (data_shape_of piece ps)
      \<le> Max (set (0 # map (\<lambda>t. length (data_shape_of t ps)) ts))"
    using k p by (intro Max_ge) auto
  then have "order_len io [piece] ps \<le> order_len io ts ps"
    by (simp add: order_len_def)
  then show ?case by auto
next
  case 4
  then show ?case by (auto simp: order_len_def)
qed

datatype array = Torch tensor | Numpy "nat list" "complex list"

datatype tdd_input = Bare array | Triple array "nat list" pylist

text \<open>
  Modelled from the spec: \<^verbatim>\<open>CUDAcpl.np2CUDAcpl\<close> is not among the sources. The spec gives
  "a same-shape real array with one extra trailing axis of length 2 holding [real, imag]".
\<close>

definition np2CUDAcpl :: "state \<Rightarrow> nat list \<Rightarrow> complex list \<Rightarrow> tensor \<times> state" where
  "np2CUDAcpl st s zs =
     (\<lparr>storage = next_obj st, shape = s @ [2], data = concat (map (\<lambda>z. [Re z, Im z]) zs)\<rparr>,
      st\<lparr>next_obj := Suc (next_obj st)\<rparr>)"

text \<open>
  \<^verbatim>\<open>if isinstance(tensor,np.ndarray): tensor = CUDAcpl.np2CUDAcpl(tensor)\<close>
\<close>

definition to_tensor :: "state \<Rightarrow> array \<Rightarrow> tensor \<times> state" where
  "to_tensor st arr = (case arr of Torch t \<Rightarrow> (t, st) | Numpy s zs \<Rightarrow> np2CUDAcpl st s zs)"

text \<open>
  \<^verbatim>\<open>TDD.as_tensor\<close>. The copy of the index order is a new list object either way; the
  elements of the caller's list are read and nothing is written to it.
\<close>

definition as_tensor :: "normalizer \<Rightarrow> world \<Rightarrow> tdd_input \<Rightarrow> (error + TDD) \<times> world" where
  "as_tensor N w inp =
     (let (arr, parallel_shape, iorder) =
            (case inp of Triple a p l \<Rightarrow> (a, p, elems l) | Bare a \<Rightarrow> (a, [], []));
          (t, st1) = to_tensor (core w) arr;
          dshape = data_shape_of t parallel_shape;
          (result_index_order, w2) =
            (if iorder = [] then new_list (w\<lparr>core := st1\<rparr>) (map int [0..<length dshape])
             else new_list (w\<lparr>core := st1\<rparr>) iorder)
      in if length dshape \<noteq> length (elems result_index_order) then (Inl InvalidInput, w2)
         else
           (case as_tensor_iterate N w2 t parallel_shape (elems result_index_order) 0 of
              (Inl e, w3) \<Rightarrow> (Inl e, w3)
            | (Inr res, w3) \<Rightarrow>
                (Inr (res\<lparr>index_order := result_index_order, data_shape := dshape\<rparr>), w3)))"

text \<open>
  Modelled from the spec: an instance of \<^verbatim>\<open>weighted_node.normalized\<close>, which "factors a
  single scalar out of the node's out_weights", "multiplies dangle_weight by that same
  factor" and "only then registers the node through get_unique_node". The spec leaves the
  choice of the scalar open; this instance factors out 1.
\<close>

definition normalized_by_one :: normalizer where
  "normalized_by_one st raw dangle_weight variant_flag =
     (case get_unique_node st (order raw) (out_weights raw) (successors raw) of
        (n, st') \<Rightarrow> (Some (Some n, dangle_weight), st'))"

section \<open>Sharing between the caller and a diagram\<close>

text \<open>The storages of the weights of every node of a diagram, root first.\<close>

fun node_storages :: "node option \<Rightarrow> nat list"
  and node_storages_list :: "node option list \<Rightarrow> nat list" where
  "node_storages None = []"
| "node_storages (Some (Node u i ord ws succs)) = storage ws # node_storages_list succs"
| "node_storages_list [] = []"
| "node_storages_list (s # ss) = node_storages s @ node_storages_list ss"

text \<open>The storages that a \<^verbatim>\<open>TDD\<close> holds: that of its weights and those of its nodes.\<close>

definition tdd_storages :: "TDD \<Rightarrow> nat list" where
  "tdd_storages tdd = storage (weights tdd) # node_storages (node tdd)"

text \<open>The storages that the nodes of the unique table hold.\<close>

definition table_storages :: "state \<Rightarrow> nat list" where
  "table_storages st = concat (map (\<lambda>e. node_storages (Some (snd e))) (unique_table st))"

text \<open>
  A mutation of the list object \<open>a\<close> by its holder (an item assignment, \<^verbatim>\<open>append\<close>,
  \<^verbatim>\<open>clear\<close>), which leaves it with the elements \<open>xs\<close>.
\<close>

definition list_assign :: "world \<Rightarrow> nat \<Rightarrow> int list \<Rightarrow> world" where
  "list_assign w a xs = w\<lparr>lists := (lists w)(a \<mapsto> xs)\<rparr>"

text \<open>
  What the frame of the import needs of \<^verbatim>\<open>weighted_node.normalized\<close>, which sees its
  two arguments and the unique table and nothing else of the caller: the objects it makes
  are new ones, and a storage that existed before the call and is held afterwards by the
  node or the weight it returns, or by the table, was held before by the node or the weight
  it was given, or by the table.
\<close>

definition detaching :: "normalizer \<Rightarrow> bool" where
  "detaching N =
     (\<forall>st raw dangle_weight flag n w' st'.
        N st raw dangle_weight flag = (Some (n, w'), st') \<longrightarrow>
          next_obj st \<le> next_obj st'
          \<and> (\<forall>s<next_obj st.
                s \<in> set (storage w' # node_storages n @ table_storages st') \<longrightarrow>
                s \<in> set (storage dangle_weight # node_storages (Some raw)
                          @ table_storages st)))"

section \<open>Dense export\<close>











text \<open>
  Modelled from the spec: \<^verbatim>\<open>CUDAcpl.einsum\<close> is not among the sources. The spec gives "an
  elementwise einsum-style complex product over paired-real operands: for each element,
  compute (a_r*b_r - a_i*b_i, a_r*b_i + a_i*b_r)", in "the purely elementwise broadcast
  form (no axis contraction), used to apply an overall scale factor": one operand is
  broadcast to the shape of the other.
\<close>

fun complex_products :: "real list \<Rightarrow> real list \<Rightarrow> real list" where
  "complex_products (a_r # a_i # a_rest) (b_r # b_i # b_rest) =
     (a_r * b_r - a_i * b_i) # (a_r * b_i + a_i * b_r) # complex_products a_rest b_rest"
| "complex_products _ _ = []"

definition einsum :: "state \<Rightarrow> tensor \<Rightarrow> tensor \<Rightarrow> error + (tensor \<times> state)" where
  "einsum st a b =
     (case broadcast_to b (shape a) of
        Inr b' \<Rightarrow>
          Inr (\<lparr>storage = next_obj st, shape = shape a,
                 data = complex_products (data a) (data b')\<rparr>,
               st\<lparr>next_obj := Suc (next_obj st)\<rparr>)
      | Inl e \<Rightarrow>
          (case broadcast_to a (shape b) of
             Inr a' \<Rightarrow>
               Inr (\<lparr>storage = next_obj st, shape = shape b,
                      data = complex_products (data a') (data b)\<rparr>,
                    st\<lparr>next_obj := Suc (next_obj st)\<rparr>)
           | Inl e' \<Rightarrow> Inl e'))"

text \<open>
  Modelled from the spec: \<^verbatim>\<open>weighted_node.to_CUDAcpl_Tensor\<close> is not among the sources.
  The spec gives "For an absent node, returns weight broadcast to shape (which must be the
  empty remaining-shape case). For a non-terminal node, recursively expands each successor
  with shape reduced by one axis, multiplies each expansion by the corresponding entry of
  out_weights, and stacks the branch results along a new leading axis, then applies weight
  as an overall scale factor." A successor is expanded under the weight 1;
  \<open>expand_branches\<close> is the loop over the branches from \<open>k\<close> on.
\<close>

fun to_CUDAcpl_Tensor ::
    "state \<Rightarrow> node option \<Rightarrow> tensor \<Rightarrow> nat list \<Rightarrow> error + (tensor \<times> state)"
  and expand_branches ::
    "state \<Rightarrow> node option list \<Rightarrow> tensor \<Rightarrow> nat \<Rightarrow> tensor \<Rightarrow> nat list
      \<Rightarrow> error + (tensor list \<times> state)"
where
  "to_CUDAcpl_Tensor st None weight s =
     (case broadcast_to weight (s @ shape weight) of
        Inl e \<Rightarrow> Inl e
      | Inr t \<Rightarrow> Inr (t, st))"
| "to_CUDAcpl_Tensor st (Some (Node u i ord ws succs)) weight s =
     (case expand_branches st succs ws 0 weight (tl s) of
        Inl e \<Rightarrow> Inl e
      | Inr (branches, st1) \<Rightarrow>
          (case stack st1 branches of
             Inl e \<Rightarrow> Inl e
           | Inr (stacked, st2) \<Rightarrow> einsum st2 stacked weight))"
| "expand_branches st [] ws k weight s = Inr ([], st)"
| "expand_branches st (succ # rest) ws k weight s =
     (case ones st (butlast (shape weight)) of
        (one, st1) \<Rightarrow>
          (case to_CUDAcpl_Tensor st1 succ one s of
             Inl e \<Rightarrow> Inl e
           | Inr (expansion, st2) \<Rightarrow>
               (case tindex ws k of
                  Inl e \<Rightarrow> Inl e
                | Inr w_k \<Rightarrow>
                    (case einsum st2 expansion w_k of
                       Inl e \<Rightarrow> Inl e
                     | Inr (branch, st3) \<Rightarrow>
                         (case expand_branches st3 rest ws (Suc k) weight s of
                            Inl e \<Rightarrow> Inl e
                          | Inr (branches, st4) \<Rightarrow> Inr (branch # branches, st4))))))"





section \<open>Concrete states and nodes\<close>

text \<open>A run of calls of \<^verbatim>\<open>get_unique_node\<close>, each given by its three arguments.\<close>

fun create_all :: "state \<Rightarrow> (int \<times> tensor \<times> node option list) list \<Rightarrow> state" where
  "create_all st [] = st"
| "create_all st ((ord, ws, succ_nodes) # cs) =
     create_all (snd (get_unique_node st ord ws succ_nodes)) cs"

text \<open>
  The state of a fresh process: an empty table and no node counted. The objects 0 to 7 are
  the tensors and lists that the caller holds.
\<close>

definition st0 :: state where
  "st0 = \<lparr>unique_table = [], global_node_id = 0, next_obj = 8\<rparr>"

text \<open>
  Two branch weights without batch shape, \<open>1+0j\<close> and \<open>0+1j\<close>, and the same with the first
  entry off by \<open>2e-7\<close>, which is below the resolution of the key.
\<close>

definition w_1_i :: tensor where
  "w_1_i = \<lparr>storage = 0, shape = [2, 2], data = [1, 0, 0, 1]\<rparr>"

definition w_1_i_near :: tensor where
  "w_1_i_near = \<lparr>storage = 1, shape = [2, 2], data = [1.0000002, 0, 0, 1]\<rparr>"

text \<open>One branch with batch shape \<open>[3]\<close>, one with batch shape \<open>[5]\<close>, one without.\<close>

definition w_batch3 :: tensor where
  "w_batch3 = \<lparr>storage = 2, shape = [1, 3, 2], data = [1, 0, 0, 1, 1, 1]\<rparr>"

definition w_batch5 :: tensor where
  "w_batch5 = \<lparr>storage = 3, shape = [1, 5, 2], data = [1, 0, 2, 0, 3, 0, 4, 0, 5, 0]\<rparr>"

definition w_unit :: tensor where
  "w_unit = \<lparr>storage = 4, shape = [1, 2], data = [1, 0]\<rparr>"

text \<open>
  A diagram \<open>a\<close> of two levels with batch shape \<open>[3]\<close> and a diagram \<open>b\<close> of one level with
  batch shape \<open>[5]\<close>, built by \<^verbatim>\<open>get_unique_node\<close> in a fresh process.
\<close>

definition a_child :: node where
  "a_child = fst (get_unique_node st0 1 w_batch3 [None])"

definition st_a_child :: state where
  "st_a_child = snd (get_unique_node st0 1 w_batch3 [None])"

definition a_root :: node where
  "a_root = fst (get_unique_node st_a_child 0 w_batch3 [Some a_child])"

definition st_a :: state where
  "st_a = snd (get_unique_node st_a_child 0 w_batch3 [Some a_child])"

definition b_root :: node where
  "b_root = fst (get_unique_node st_a 0 w_batch5 [None])"

definition st_ab :: state where
  "st_ab = snd (get_unique_node st_a 0 w_batch5 [None])"

text \<open>
  A node made after a \<^verbatim>\<open>reset\<close> over a successor made before it: the node is in the
  table, its successor no longer is.
\<close>

definition stale_child :: node where
  "stale_child = fst (get_unique_node st0 1 w_unit [None])"

definition stale_parent :: node where
  "stale_parent =
     fst (get_unique_node (reset (snd (get_unique_node st0 1 w_unit [None]))) 0 w_unit
            [Some stale_child])"

definition st_stale :: state where
  "st_stale =
     snd (get_unique_node (reset (snd (get_unique_node st0 1 w_unit [None]))) 0 w_unit
            [Some stale_child])"

text \<open>The value an operation returns, without the state it leaves.\<close>

definition result_of :: "error + ('a \<times> state) \<Rightarrow> error + 'a" where
  "result_of r = (case r of Inl e \<Rightarrow> Inl e | Inr (x, st) \<Rightarrow> Inr x)"

text \<open>The order and the shape of the weights of every node of a diagram, root first.\<close>

fun shapes :: "node option \<Rightarrow> (int \<times> nat list) list"
  and shapes_list :: "node option list \<Rightarrow> (int \<times> nat list) list" where
  "shapes None = []"
| "shapes (Some (Node u i ord ws succs)) = (ord, shape ws) # shapes_list succs"
| "shapes_list [] = []"
| "shapes_list (s # ss) = shapes s @ shapes_list ss"

text \<open>
  A diagram is canonical for a batch shape when each of its nodes is the entry of the table
  under its own key and has weights of the shape \<^verbatim>\<open>[succ_num, ...batch_shape..., 2]\<close>
  with one entry per position.
\<close>

fun canonical :: "state \<Rightarrow> nat list \<Rightarrow> node option \<Rightarrow> bool"
  and canonical_list :: "state \<Rightarrow> nat list \<Rightarrow> node option list \<Rightarrow> bool" where
  "canonical st parallel_shape None = True"
| "canonical st parallel_shape (Some (Node u i ord ws succs)) =
     (map_of (unique_table st) (get_unique_key ord ws succs) = Some (Node u i ord ws succs)
      \<and> shape ws = [length succs] @ parallel_shape @ [2]
      \<and> length (data ws) = numel (shape ws)
      \<and> canonical_list st parallel_shape succs)"
| "canonical_list st parallel_shape [] = True"
| "canonical_list st parallel_shape (s # ss) =
     (canonical st parallel_shape s \<and> canonical_list st parallel_shape ss)"

text \<open>
  The node of the vector \<open>[1+0j, 0+1j]\<close>: two terminal successors, no batch shape.
\<close>

definition vec_node :: node where
  "vec_node = fst (get_unique_node st0 0 w_1_i [None, None])"

text \<open>\<^verbatim>\<open>Digraph()\<close>, a graph without statements.\<close>

definition empty_digraph :: digraph where
  "empty_digraph = \<lparr>vertices = [], edges = []\<rparr>"

text \<open>The graph a call of \<^verbatim>\<open>layout\<close> returns, when it returns.\<close>

definition graph_of :: "error + (digraph \<times> node option list) \<Rightarrow> error + digraph" where
  "graph_of r = (case r of Inl e \<Rightarrow> Inl e | Inr (dot, succ) \<Rightarrow> Inr dot)"

text \<open>Tail, head and colour of an edge, without its label.\<close>

definition edge_ends :: "int \<times> int \<times> string \<times> elabel \<Rightarrow> int \<times> int \<times> string" where
  "edge_ends e = (fst e, fst (snd e), fst (snd (snd e)))"

text \<open>The number of distinct vertex ids of the graph a call of \<^verbatim>\<open>layout\<close> returns.\<close>

definition vertex_count :: "error + digraph \<Rightarrow> nat option" where
  "vertex_count r =
     (case r of Inl e \<Rightarrow> None | Inr dot \<Rightarrow> Some (length (remdups (map fst (vertices dot)))))"

text \<open>
  The identity matrix in paired-real form, held by the caller, and two index orders of the
  caller of the right length: one names the axis 2, which a tensor of two data axes does not
  have, the other swaps the two axes.
\<close>

definition t_eye :: tensor where
  "t_eye = \<lparr>storage = 5, shape = [2, 2, 2], data = [1, 0, 0, 0, 0, 0, 1, 0]\<rparr>"

definition order_off :: pylist where
  "order_off = \<lparr>lid = 6, elems = [2, 0]\<rparr>"

definition order_swap :: pylist where
  "order_swap = \<lparr>lid = 7, elems = [1, 0]\<rparr>"

text \<open>
  The index order is a permutation of the \<open>n\<close> data axes.
\<close>

definition is_permutation :: "int list \<Rightarrow> nat \<Rightarrow> bool" where
  "is_permutation iorder n = (sort iorder = map int [0..<n])"

text \<open>
  The shape of a tensor that the recursion of the import meets at a depth: the batch shape,
  then the \<open>n\<close> data axes, none of them empty and those that the index order names before
  the depth cut to length 1, then the complex pair.
\<close>

definition sliced :: "nat list \<Rightarrow> nat \<Rightarrow> int list \<Rightarrow> nat \<Rightarrow> nat list \<Rightarrow> bool" where
  "sliced parallel_shape n iorder depth s =
     (\<exists>cur. s = parallel_shape @ cur @ [2] \<and> length cur = n
        \<and> (\<forall>j<depth. cur ! nat (iorder ! j) = 1) \<and> (\<forall>i<n. 0 < cur ! i))"

text \<open>
  What the import needs of \<^verbatim>\<open>weighted_node.normalized\<close> in order to go on: it returns,
  and the weight it returns has the shape of the weight it was given, as the spec has it
  ("multiplies dangle_weight by that same factor").
\<close>

definition returns_weight :: "normalizer \<Rightarrow> bool" where
  "returns_weight N =
     (\<forall>st raw dangle_weight flag.
        \<exists>n w' st'. N st raw dangle_weight flag = (Some (n, w'), st')
          \<and> shape w' = shape dangle_weight)"

text \<open>
  The process of the caller: the fresh state of the node layer and the two list objects.
\<close>

definition w0 :: world where
  "w0 = \<lparr>core = st0, lists = [6 \<mapsto> [2, 0], 7 \<mapsto> [1, 0]]\<rparr>"

text \<open>
  The process after the caller has made \<open>vec_node\<close>, with a list of the caller for an
  index order of one axis, and the weights of that node, which the caller reads from the
  attribute \<^verbatim>\<open>out_weights\<close>.
\<close>

definition order_axis :: pylist where
  "order_axis = \<lparr>lid = 6, elems = [0]\<rparr>"

definition w_vec :: world where
  "w_vec = \<lparr>core = snd (get_unique_node st0 0 w_1_i [None, None]), lists = [6 \<mapsto> [0]]\<rparr>"

definition t_held :: tensor where
  "t_held = \<lparr>storage = 8, shape = [2, 2], data = [1, 0, 0, 1]\<rparr>"

text \<open>The storages that the result of an import holds; none when it failed.\<close>

definition storages_of :: "(error + TDD) \<times> world \<Rightarrow> nat list" where
  "storages_of r = (case fst r of Inl e \<Rightarrow> [] | Inr tdd \<Rightarrow> tdd_storages tdd)"




section \<open>Properties of the unique table\<close>

lemma get_unique_node_keeps:
  "map_of (unique_table st) k = Some n \<Longrightarrow>
   map_of (unique_table (snd (get_unique_node st ord ws ss))) k = Some n"
  by (auto simp: get_unique_node_def clone_def Let_def split: option.splits)

lemma create_all_keeps:
  "map_of (unique_table st) k = Some n \<Longrightarrow> map_of (unique_table (create_all st cs)) k = Some n"
  by (induction st cs rule: create_all.induct) (auto simp: get_unique_node_keeps)

lemma get_unique_node_registers:
  "get_unique_node st ord ws ss = (n, st') \<Longrightarrow>
   map_of (unique_table st') (get_unique_key ord ws ss) = Some n"
  by (auto simp: get_unique_node_def clone_def Let_def split: option.splits)

lemma get_unique_node_hit:
  "map_of (unique_table st) (get_unique_key ord ws ss) = Some n \<Longrightarrow>
   get_unique_node st ord ws ss = (n, st)"
  by (simp add: get_unique_node_def)

lemma get_unique_key_cong:
  assumes "get_int_key w1 = get_int_key w2"
    and "map (map_option uid) s1 = map (map_option uid) s2"
  shows "get_unique_key ord w1 s1 = get_unique_key ord w2 s2"
proof -
  have "map (\<lambda>s. KSucc (map_option uid s)) s1 = map KSucc (map (map_option uid) s1)"
    by simp
  also have "\<dots> = map KSucc (map (map_option uid) s2)"
    using assms(2) by simp
  finally show ?thesis
    using assms(1) by (simp add: get_unique_key_def)
qed

text \<open>
  Claim C2 (hash-consing). Take a call of \<^verbatim>\<open>get_unique_node\<close> and a later one, with any
  other node creations in between, such that both have the same order, weights with the same
  integer key under \<open>EPS\<close>, and successor lists holding the same objects. Then the later
  call returns the node of the earlier one and leaves the state, and with it the id counter,
  as it found it; the earlier call raised the counter by one exactly when its key was new.
\<close>

theorem hash_consing:
  assumes "get_int_key w1 = get_int_key w2"
    and "map (map_option uid) s1 = map (map_option uid) s2"
    and "get_unique_node st ord w1 s1 = (n1, st1)"
    and "get_unique_node (create_all st1 cs) ord w2 s2 = (n2, st2)"
  shows "n2 = n1 \<and> st2 = create_all st1 cs
     \<and> global_node_id st1 =
         (if map_of (unique_table st) (get_unique_key ord w1 s1) = None
          then global_node_id st + 1 else global_node_id st)"
proof -
  have k: "get_unique_key ord w2 s2 = get_unique_key ord w1 s1"
    using assms(1,2) get_unique_key_cong by metis
  have "map_of (unique_table st1) (get_unique_key ord w1 s1) = Some n1"
    using assms(3) by (rule get_unique_node_registers)
  then have "map_of (unique_table (create_all st1 cs)) (get_unique_key ord w2 s2) = Some n1"
    using k create_all_keeps by simp
  then have "get_unique_node (create_all st1 cs) ord w2 s2 = (n1, create_all st1 cs)"
    by (rule get_unique_node_hit)
  with assms(4) have a: "n2 = n1 \<and> st2 = create_all st1 cs" by simp
  have "global_node_id st1 =
         (if map_of (unique_table st) (get_unique_key ord w1 s1) = None
          then global_node_id st + 1 else global_node_id st)"
    using assms(3) by (auto simp: get_unique_node_def clone_def Let_def split: option.splits)
  with a show ?thesis by simp
qed

lemma key_w_1_i: "get_int_key w_1_i = [1000000, 0, 0, 1000000]"
  by (simp add: get_int_key_def long_cast_def w_1_i_def EPS_def torch_round_def)

lemma key_w_1_i_near: "get_int_key w_1_i_near = [1000000, 0, 0, 1000000]"
  by (simp add: get_int_key_def long_cast_def w_1_i_near_def EPS_def torch_round_def)

theorem hash_consing_witness:
  "get_int_key w_1_i = get_int_key w_1_i_near
   \<and> fst (get_unique_node
        (create_all (snd (get_unique_node st0 0 w_1_i [None, None])) [(1, w_1_i, [None])])
        0 w_1_i_near [None, None])
     = fst (get_unique_node st0 0 w_1_i [None, None])
   \<and> global_node_id (snd (get_unique_node
        (create_all (snd (get_unique_node st0 0 w_1_i [None, None])) [(1, w_1_i, [None])])
        0 w_1_i_near [None, None])) = 2"
proof -
  have h1: "get_int_key w_1_i = get_int_key w_1_i_near"
    by (simp add: key_w_1_i key_w_1_i_near)
  have h2: "map (map_option uid) [None, None] = map (map_option uid) [None, None]"
    by simp
  obtain n1 st1 where h3: "get_unique_node st0 0 w_1_i [None, None] = (n1, st1)"
    by (cases "get_unique_node st0 0 w_1_i [None, None]")
  obtain n2 st2 where h4:
    "get_unique_node (create_all st1 [(1, w_1_i, [None])]) 0 w_1_i_near [None, None] = (n2, st2)"
    by (cases "get_unique_node (create_all st1 [(1, w_1_i, [None])]) 0 w_1_i_near [None, None]")
  have g: "global_node_id (create_all st1 [(1, w_1_i, [None])]) = 2"
    using h3 by (auto simp: get_unique_node_def get_unique_key_def key_w_1_i st0_def clone_def Let_def)
  from hash_consing [OF h1 h2 h3 h4] h1 h3 h4 g show ?thesis
    by simp
qed

text \<open>
  Claim C6 (reset). After any run of node creations, \<^verbatim>\<open>reset\<close> leaves the table empty
  and the id counter at 0 and touches nothing else of the state, and the next node made by
  \<^verbatim>\<open>get_unique_node\<close> has id 1.
\<close>

theorem reset_semantics:
  "unique_table (reset (create_all st cs)) = []
   \<and> global_node_id (reset (create_all st cs)) = 0
   \<and> next_obj (reset (create_all st cs)) = next_obj (create_all st cs)
   \<and> id (fst (get_unique_node (reset (create_all st cs)) ord ws succ_nodes)) = 1
   \<and> global_node_id (snd (get_unique_node (reset (create_all st cs)) ord ws succ_nodes)) = 1"
  by (simp add: reset_def get_unique_node_def clone_def Let_def)


section \<open>Properties of duplicate and append\<close>

lemma key_w_batch3: "get_int_key w_batch3 = [1000000, 0, 0, 1000000, 1000000, 1000000]"
  by (simp add: get_int_key_def long_cast_def w_batch3_def EPS_def torch_round_def)

lemma a_child_eq:
  "a_child = Node 9 1 1 \<lparr>storage = 8, shape = [1, 3, 2], data = [1, 0, 0, 1, 1, 1]\<rparr> [None]"
  by (simp add: a_child_def get_unique_node_def get_unique_key_def st0_def clone_def Let_def
      w_batch3_def)

lemma st_a_child_eq:
  "st_a_child = \<lparr>unique_table =
      [([KInt 1, KInt 1000000, KInt 0, KInt 0, KInt 1000000, KInt 1000000, KInt 1000000,
         KSucc None], a_child)],
     global_node_id = 1, next_obj = 10\<rparr>"
  by (simp add: a_child_eq st_a_child_def get_unique_node_def get_unique_key_def key_w_batch3
      st0_def clone_def Let_def) (simp add: w_batch3_def)

lemma a_root_eq:
  "a_root = Node 11 2 0 \<lparr>storage = 10, shape = [1, 3, 2], data = [1, 0, 0, 1, 1, 1]\<rparr>
     [Some a_child]"
  by (simp add: a_root_def st_a_child_eq get_unique_node_def get_unique_key_def key_w_batch3
      clone_def Let_def) (simp add: w_batch3_def a_child_eq)

lemma st_a_eq:
  "st_a = \<lparr>unique_table =
      [([KInt 0, KInt 1000000, KInt 0, KInt 0, KInt 1000000, KInt 1000000, KInt 1000000,
         KSucc (Some 9)], a_root),
       ([KInt 1, KInt 1000000, KInt 0, KInt 0, KInt 1000000, KInt 1000000, KInt 1000000,
         KSucc None], a_child)],
     global_node_id = 2, next_obj = 12\<rparr>"
  by (simp add: a_root_eq st_a_def st_a_child_eq get_unique_node_def get_unique_key_def key_w_batch3
      clone_def Let_def) (simp add: w_batch3_def a_child_eq)

text \<open>
  Claim C4 (duplicate broadcast), evaluated on the diagram \<open>a\<close> of two levels and batch
  shape \<open>[3]\<close> with \<^verbatim>\<open>extra_shape_behind = (5,)\<close>: the root of the result has weights of
  shape \<open>[1, 3, 5, 2]\<close>, its successor keeps weights of shape \<open>[1, 3, 2]\<close>. The orders
  are those of the original plus \<^verbatim>\<open>init_order\<close>; the extra axes behind reach the root only.
\<close>

theorem duplicate_drops_behind:
  "map_sum (\<lambda>e. e) shapes (result_of (duplicate st_a (Some a_root) [3] 0 [] [5]))
     = Inr [(0, [1, 3, 5, 2]), (1, [1, 3, 2])]"
  apply (simp add: a_root_eq a_child_eq st_a_eq)
  apply (simp add: view_def broadcast_to_def numel_def chunks_def get_unique_node_def get_unique_key_def
     get_int_key_def long_cast_def EPS_def torch_round_def clone_def Let_def result_of_def eval_nat_numeral)
  done


lemma key_w_batch5:
  "get_int_key w_batch5 = [1000000, 0, 2000000, 0, 3000000, 0, 4000000, 0, 5000000, 0]"
  by (simp add: get_int_key_def long_cast_def w_batch5_def EPS_def torch_round_def)

lemma b_root_eq:
  "b_root = Node 13 3 0
     \<lparr>storage = 12, shape = [1, 5, 2], data = [1, 0, 2, 0, 3, 0, 4, 0, 5, 0]\<rparr> [None]"
  by (simp add: b_root_def st_a_eq get_unique_node_def get_unique_key_def key_w_batch5
      clone_def Let_def) (simp add: w_batch5_def)

lemma st_ab_eq:
  "st_ab = \<lparr>unique_table =
      [([KInt 0, KInt 1000000, KInt 0, KInt 2000000, KInt 0, KInt 3000000, KInt 0,
         KInt 4000000, KInt 0, KInt 5000000, KInt 0, KSucc None], b_root),
       ([KInt 0, KInt 1000000, KInt 0, KInt 0, KInt 1000000, KInt 1000000, KInt 1000000,
         KSucc (Some 9)], a_root),
       ([KInt 1, KInt 1000000, KInt 0, KInt 0, KInt 1000000, KInt 1000000, KInt 1000000,
         KSucc None], a_child)],
     global_node_id = 3, next_obj = 14\<rparr>"
  by (simp add: b_root_eq st_ab_def st_a_eq get_unique_node_def get_unique_key_def key_w_batch5
      clone_def Let_def) (simp add: w_batch5_def)

text \<open>
  Claim C3 (outer-product append), evaluated on \<open>a\<close> (two levels, batch shape \<open>[3]\<close>) and
  \<open>b\<close> (one level, batch shape \<open>[5]\<close>) with \<^verbatim>\<open>tensor_batches = true\<close>: the root of \<open>a\<close>
  and the node of \<open>b\<close> carry the batch shape \<open>[3, 5]\<close> in the result, the inner node of
  \<open>a\<close> still carries \<open>[3]\<close>.
\<close>

theorem append_outer_product_shapes:
  "map_sum (\<lambda>e. e) shapes
     (result_of (append st_ab (Some a_root) [3] 2 (Some b_root) [5] True))
     = Inr [(0, [1, 3, 5, 2]), (1, [1, 3, 2]), (2, [1, 3, 5, 2])]"
  apply (simp add: append_def a_root_eq a_child_eq b_root_eq st_ab_eq)
  apply (simp add: view_def broadcast_to_def numel_def chunks_def get_unique_node_def get_unique_key_def
     get_int_key_def long_cast_def EPS_def torch_round_def clone_def Let_def result_of_def eval_nat_numeral)
  done


lemma chunks_Suc: "chunks (Suc k) n xs = chunks k n xs @ [take n (drop (k * n) xs)]"
  by (simp add: chunks_def)

lemma concat_chunks: "concat (chunks k n xs) = take (k * n) xs"
proof (induction k)
  case 0
  then show ?case by (simp add: chunks_def)
next
  case (Suc k)
  have "take (k * n) xs @ take n (drop (k * n) xs) = take (k * n + n) xs"
    by (simp add: take_add)
  with Suc show ?case by (simp add: chunks_Suc add.commute)
qed

lemma chunk_length: "c \<in> set (chunks k n xs) \<Longrightarrow> length c \<le> n"
  by (auto simp: chunks_def)

lemma broadcast_data_same: "length xs \<le> numel s \<Longrightarrow> broadcast_data s s xs = xs"
proof (induction s arbitrary: xs)
  case Nil
  then show ?case by simp
next
  case (Cons a s)
  have "map (broadcast_data s s) (chunks a (numel s) xs) = chunks a (numel s) xs"
    by (rule map_idI) (simp add: Cons.IH chunk_length)
  then show ?case
    using Cons.prems by (simp add: concat_chunks numel_def)
qed

lemma broadcastable_same: "broadcastable s s"
  by (induction s) auto

lemma broadcast_to_same:
  "length (data t) \<le> numel (shape t) \<Longrightarrow> broadcast_to t (shape t) = Inr t"
  by (simp add: broadcast_to_def broadcastable_same broadcast_data_same)

lemma view_same: "view t (shape t) = Inr t"
  by (simp add: view_def)

lemma get_unique_node_found:
  "map_of (unique_table st) (get_unique_key ord ws ss) = Some n \<Longrightarrow>
   get_unique_node st ord ws ss = (n, st)"
  by (simp add: get_unique_node_def)

lemma duplicate_canonical:
  "canonical st ps n \<Longrightarrow> behind = [] \<Longrightarrow> i0 = 0 \<Longrightarrow> ahead = [] \<Longrightarrow>
     duplicate st n ps i0 ahead behind = Inr (n, st)"
  "canonical_list st ps ns \<Longrightarrow> i0 = 0 \<Longrightarrow> ahead = [] \<Longrightarrow>
     duplicate_list st ns ps i0 ahead = Inr (ns, st)"
proof (induction st n ps i0 ahead behind and st ns ps i0 ahead rule: duplicate_duplicate_list.induct)
  case (1 st parallel_shape init_order extra_shape_ahead extra_shape_behind)
  then show ?case by simp
next
  case (2 st u i ord ws succs parallel_shape init_order extra_shape_ahead extra_shape_behind)
  then have reg: "map_of (unique_table st) (get_unique_key ord ws succs) = Some (Node u i ord ws succs)"
    and sh: "shape ws = [length succs] @ parallel_shape @ [2]"
    and len: "length (data ws) = numel (shape ws)"
    and cl: "canonical_list st parallel_shape succs"
    by simp_all
  have v: "view ws ([length succs] @ parallel_shape @ [2]) = Inr ws"
    using view_same [of ws] sh by simp
  have b: "broadcast_to ws ([length succs] @ parallel_shape @ [2]) = Inr ws"
    using broadcast_to_same [of ws] sh len by simp
  have l: "duplicate_list st succs parallel_shape init_order extra_shape_ahead = Inr (succs, st)"
    using "2.IH" [of ws ws] v b cl "2.prems" by simp
  show ?case
    using v b l reg "2.prems" by (simp add: get_unique_node_found)
next
  case (3 st parallel_shape init_order extra_shape_ahead)
  then show ?case by simp
next
  case (4 st s ss parallel_shape init_order extra_shape_ahead)
  then show ?case by simp
qed

text \<open>
  Claim C9 (identity duplication), amended. If the node \<open>n\<close> and every node reachable from
  it are entries of the unique table under their own keys and have weights of the shape
  \<^verbatim>\<open>[succ_num, ...batch_shape..., 2]\<close>, then duplicating \<open>n\<close> with this batch shape, no
  extra shape and \<^verbatim>\<open>init_order = 0\<close> returns \<open>n\<close> itself and leaves the state unchanged.
\<close>

theorem identity_duplication:
  "canonical st batch_shape (Some n) \<Longrightarrow>
     duplicate st (Some n) batch_shape 0 [] [] = Inr (Some n, st)"
  by (rule duplicate_canonical(1)) simp_all

theorem identity_duplication_witness:
  "canonical st_a [3] (Some a_root)
   \<and> duplicate st_a (Some a_root) [3] 0 [] [] = Inr (Some a_root, st_a)"
proof -
  have c: "canonical st_a [3] (Some a_root)"
    by (simp add: a_root_eq a_child_eq st_a_eq get_unique_key_def get_int_key_def long_cast_def EPS_def
        torch_round_def numel_def)
  from identity_duplication [OF c] c show ?thesis by simp
qed

lemma key_w_unit: "get_int_key w_unit = [1000000, 0]"
  by (simp add: get_int_key_def long_cast_def w_unit_def EPS_def torch_round_def)

lemma stale_child_eq:
  "stale_child = Node 9 1 1 \<lparr>storage = 8, shape = [1, 2], data = [1, 0]\<rparr> [None]"
  by (simp add: stale_child_def get_unique_node_def get_unique_key_def st0_def clone_def Let_def
      w_unit_def)

lemma stale_parent_eq:
  "stale_parent = Node 11 1 0 \<lparr>storage = 10, shape = [1, 2], data = [1, 0]\<rparr> [Some stale_child]"
  by (simp add: stale_parent_def reset_def get_unique_node_def get_unique_key_def st0_def
      clone_def Let_def) (simp add: w_unit_def)

lemma st_stale_eq:
  "st_stale = \<lparr>unique_table = [([KInt 0, KInt 1000000, KInt 0, KSucc (Some 9)], stale_parent)],
     global_node_id = 1, next_obj = 12\<rparr>"
  by (simp add: stale_parent_eq st_stale_def reset_def get_unique_node_def get_unique_key_def
      key_w_unit st0_def clone_def Let_def) (simp add: w_unit_def stale_child_eq)

text \<open>
  Claim C9 as stated fails: \<open>stale_parent\<close> is the entry of the table under its own key and
  has no batch shape, but its successor was made before a \<^verbatim>\<open>reset\<close>; duplicating it makes a
  new successor and with it a new node.
\<close>

theorem identity_duplication_counterexample:
  "map_of (unique_table st_stale) (unique_key stale_parent) = Some stale_parent
   \<and> shape (out_weights stale_parent) = [index_range stale_parent] @ [] @ [2]
   \<and> result_of (duplicate st_stale (Some stale_parent) [] 0 [] []) \<noteq> Inr (Some stale_parent)"
  apply (simp add: unique_key_def index_range_def stale_parent_eq stale_child_eq st_stale_eq)
  apply (simp add: view_def broadcast_to_def numel_def chunks_def get_unique_node_def get_unique_key_def
     get_int_key_def long_cast_def EPS_def torch_round_def clone_def Let_def result_of_def eval_nat_numeral)
  done


section \<open>Properties of layout\<close>

lemma vec_node_eq:
  "vec_node = Node 9 1 0 \<lparr>storage = 8, shape = [2, 2], data = [1, 0, 0, 1]\<rparr> [None, None]"
  by (simp add: vec_node_def get_unique_node_def get_unique_key_def st0_def clone_def Let_def
      w_1_i_def)

text \<open>
  Claim C7 (edge labels), evaluated on the node of the vector \<open>[1+0j, 0+1j]\<close>: the edges are
  coloured red and blue, the label of branch 0 is \<open>1+0j\<close>, and the label of branch 1 is
  \<open>0+0j\<close> although the amplitude of the branch is \<open>0+1j\<close>: the label takes
  \<^verbatim>\<open>.item().imag\<close> of the imaginary entry, which is 0 for every float.
\<close>

theorem layout_label_drops_imaginary_part:
  "graph_of (layout (Some vec_node) [] [0] empty_digraph [] True False) =
     Inr \<lparr>vertices = [(1, VIndex 0), (-1, VOne)],
          edges = [(1, -1, ''red'', LComplex 1 0), (1, -1, ''blue'', LComplex 0 0)]\<rparr>"
  by (simp add: vec_node_eq empty_digraph_def graph_of_def py_index_def edge_label_def
      tindex_def item_def numel_def round2_def torch_round_def float_imag_def visited_def
      dot_node_def dot_edge_def node_id_of_def TERMINAL_ID_def col_def)


lemma two_elems: "length xs = 2 \<Longrightarrow> \<exists>x y. xs = [x, y]"
  by (cases xs; cases "tl xs") auto

lemma tindex_row:
  "shape ws = [r, 2] \<Longrightarrow> k < r \<Longrightarrow>
   tindex ws k = Inr (ws\<lparr>shape := [2], data := take 2 (drop (k * 2) (data ws))\<rparr>)"
  by (simp add: tindex_def numel_def)

lemma edge_label_pair:
  assumes "shape ws = [r, 2]" and "k < r" and "take 2 (drop (k * 2) (data ws)) = [x, y]"
  shows "edge_label ws k ps fo = Inr (LComplex (round2 x) (round2 (float_imag y)))"
proof -
  have r0: "0 < r" using assms(2) by simp
  have t0: "tindex ws 0 = Inr (ws\<lparr>shape := [2], data := take 2 (drop (0 * 2) (data ws))\<rparr>)"
    using assms(1) r0 by (rule tindex_row)
  have tk: "tindex ws k = Inr (ws\<lparr>shape := [2], data := [x, y]\<rparr>)"
    using tindex_row [OF assms(1,2)] assms(3) by simp
  have i0: "tindex (ws\<lparr>shape := [2], data := [x, y]\<rparr>) 0 = Inr (ws\<lparr>shape := [], data := [x]\<rparr>)"
    by (simp add: tindex_def numel_def)
  have i1: "tindex (ws\<lparr>shape := [2], data := [x, y]\<rparr>) (Suc 0) = Inr (ws\<lparr>shape := [], data := [y]\<rparr>)"
    by (simp add: tindex_def numel_def)
  show ?thesis
    unfolding edge_label_def t0 tk by (simp add: i0 i1 item_def)
qed

lemma edge_label_flat:
  assumes "shape ws = [r, 2]" and "length (data ws) = 2 * r" and "k < r"
  shows "\<exists>l. edge_label ws k ps fo = Inr l"
proof -
  have "length (take 2 (drop (k * 2) (data ws))) = 2"
    using assms by simp
  then obtain x y where "take 2 (drop (k * 2) (data ws)) = [x, y]"
    using two_elems by blast
  then show ?thesis
    using edge_label_pair [OF assms(1,3)] by blast
qed


lemma layout_branches_visited:
  assumes "shape ws = [r, 2]" and "length (data ws) = 2 * r" and "visited None succ"
    and "k + m \<le> r"
  shows "\<exists>dot'. layout_branches i ws k (replicate m None) ps io dot succ rl fo = Inr (dot', succ)
     \<and> vertices dot' = vertices dot
     \<and> map edge_ends (edges dot') =
         map edge_ends (edges dot) @ map (\<lambda>j. (i, TERMINAL_ID, col ! (j mod 4))) [k..<k + m]"
  using assms(4)
proof (induction m arbitrary: k dot)
  case 0
  then show ?case by simp
next
  case (Suc m)
  then have kr: "k < r" and km: "Suc k + m \<le> r" by simp_all
  obtain l where l: "edge_label ws k ps fo = Inr l"
    using edge_label_flat [OF assms(1,2) kr] by blast
  let ?d = "dot_edge dot i (node_id_of None) (col ! (k mod 4)) l"
  obtain dot' where d: "layout_branches i ws (Suc k) (replicate m None) ps io ?d succ rl fo
        = Inr (dot', succ)"
    and v: "vertices dot' = vertices ?d"
    and e: "map edge_ends (edges dot') =
         map edge_ends (edges ?d) @ map (\<lambda>j. (i, TERMINAL_ID, col ! (j mod 4))) [Suc k..<Suc k + m]"
    using Suc.IH [OF km, of ?d] by blast
  have u: "[k..<k + Suc m] = k # [Suc k..<Suc k + m]"
    by (simp add: upt_conv_Cons)
  have "layout_branches i ws k (replicate (Suc m) None) ps io dot succ rl fo = Inr (dot', succ)"
    using l d assms(3) by simp
  moreover have "vertices dot' = vertices dot"
    using v by (simp add: dot_edge_def)
  moreover have "map edge_ends (edges dot') =
         map edge_ends (edges dot) @ map (\<lambda>j. (i, TERMINAL_ID, col ! (j mod 4))) [k..<k + Suc m]"
    unfolding u using e by (simp add: dot_edge_def edge_ends_def node_id_of_def)
  ultimately show ?case by blast
qed

text \<open>
  Claim C8 (vertex and edge counts), amended. On a fresh graph and an empty visited list,
  and with an index order that has an entry at the order of the node,
  \<^verbatim>\<open>layout\<close> of a node with \<open>r > 0\<close> terminal successors and weights without batch shape
  emits two vertices, the node itself and one terminal vertex with id \<open>-1\<close> that all
  branches share, and \<open>r\<close> edges, the edge of branch \<open>k\<close> coloured with entry \<open>k mod 4\<close> of
  the palette: for the two branches of the claim, 2 vertices and 2 edges, red and blue.
\<close>

theorem layout_terminal_branches:
  assumes "0 < r" and "shape ws = [r, 2]" and "length (data ws) = 2 * r"
    and "py_index iorder ord = Inr j"
  shows "\<exists>dot. graph_of (layout (Some (Node u i ord ws (replicate r None))) parallel_shape
               iorder empty_digraph [] real_label full_output) = Inr dot
     \<and> vertices dot = [(i, VIndex j), (TERMINAL_ID, VOne)]
     \<and> map edge_ends (edges dot) = map (\<lambda>k. (i, TERMINAL_ID, col ! (k mod 4))) [0..<r]"
proof -
  obtain m where m: "r = Suc m"
    using assms(1) by (cases r) auto
  obtain l where l: "edge_label ws 0 parallel_shape full_output = Inr l"
    using edge_label_flat [OF assms(2,3,1)] by blast
  let ?d1 = "dot_node (dot_node empty_digraph i (VIndex j)) TERMINAL_ID VOne"
  let ?d2 = "dot_edge ?d1 i (node_id_of None) (col ! (0 mod 4)) l"
  have vis: "visited None ([] @ [None])"
    by (simp add: visited_def)
  have "Suc 0 + m \<le> r" using m by simp
  from layout_branches_visited [OF assms(2,3) vis this, of i parallel_shape iorder ?d2
      real_label full_output]
  obtain dot where d: "layout_branches i ws (Suc 0) (replicate m None) parallel_shape iorder
        ?d2 ([] @ [None]) real_label full_output = Inr (dot, [] @ [None])"
    and v: "vertices dot = vertices ?d2"
    and e: "map edge_ends (edges dot) =
         map edge_ends (edges ?d2) @ map (\<lambda>k. (i, TERMINAL_ID, col ! (k mod 4))) [Suc 0..<Suc 0 + m]"
    by blast
  have nv: "\<not> visited None []"
    by (simp add: visited_def)
  have "layout (Some (Node u i ord ws (replicate r None))) parallel_shape
               iorder empty_digraph [] real_label full_output = Inr (dot, [None])"
    using assms(4) l d nv by (simp add: m)
  then have g: "graph_of (layout (Some (Node u i ord ws (replicate r None))) parallel_shape
               iorder empty_digraph [] real_label full_output) = Inr dot"
    by (simp add: graph_of_def)
  have v': "vertices dot = [(i, VIndex j), (TERMINAL_ID, VOne)]"
    using v by (simp add: dot_edge_def dot_node_def empty_digraph_def)
  have u: "[0..<r] = 0 # [Suc 0..<Suc 0 + m]"
    using m by (simp add: upt_conv_Cons)
  have e': "map edge_ends (edges dot) = map (\<lambda>k. (i, TERMINAL_ID, col ! (k mod 4))) [0..<r]"
    unfolding u using e
    by (simp add: dot_edge_def dot_node_def empty_digraph_def edge_ends_def node_id_of_def)
  from g v' e' show ?thesis by blast
qed


theorem layout_terminal_branches_witness:
  "(0::nat) < 2 \<and> shape (out_weights vec_node) = [2, 2]
   \<and> length (data (out_weights vec_node)) = 2 * 2
   \<and> py_index [0] (order vec_node) = Inr (0::int)
   \<and> (\<exists>dot. graph_of (layout (Some vec_node) [] [0] empty_digraph [] True False) = Inr dot
        \<and> vertices dot = [(1, VIndex 0), (-1, VOne)]
        \<and> map edge_ends (edges dot) = [(1, -1, ''red''), (1, -1, ''blue'')])"
proof -
  let ?ws = "\<lparr>storage = 8, shape = [2, 2], data = [1, 0, 0, 1]\<rparr>"
  have h1: "(0::nat) < 2" by simp
  have h2: "shape ?ws = [2, 2]" by simp
  have h3: "length (data ?ws) = 2 * 2" by simp
  have h4: "py_index [0] 0 = Inr (0::int)" by (simp add: py_index_def)
  have r: "replicate 2 None = [None, None]" by (simp add: numeral_2_eq_2)
  have u: "[0..<2] = [0, Suc 0]" by (simp add: numeral_2_eq_2)
  from layout_terminal_branches [OF h1 h2 h3 h4, of 9 1 "[]" True False]
  show ?thesis
    unfolding r u by (simp add: vec_node_eq py_index_def TERMINAL_ID_def col_def)
qed

text \<open>
  Claim C8 as stated fails: the graph that \<^verbatim>\<open>layout\<close> returns for the node of the vector
  \<open>[1+0j, 0+1j]\<close> has 2 vertices, not 3.
\<close>

theorem layout_vertex_count_counterexample:
  "vertex_count (graph_of (layout (Some vec_node) [] [0] empty_digraph [] True False)) = Some 2
   \<and> vertex_count (graph_of (layout (Some vec_node) [] [0] empty_digraph [] True False)) \<noteq> Some 3"
  by (simp add: vec_node_eq empty_digraph_def graph_of_def vertex_count_def py_index_def
      edge_label_def tindex_def item_def numel_def round2_def torch_round_def float_imag_def
      visited_def dot_node_def dot_edge_def node_id_of_def TERMINAL_ID_def col_def)


section \<open>Properties of the import\<close>

declare as_tensor_iterate.simps [simp del] as_tensor_loop.simps [simp del]

lemma loop_cases:
  obtains (finished) "\<not> k < n" "as_tensor_loop N w ts k n ps io d acc = (Inr acc, w)"
  | (no_piece) e where "k < n" "py_index ts (int k) = Inl e"
      "as_tensor_loop N w ts k n ps io d acc = (Inl e, w)"
  | (piece_failed) piece e w' where "k < n" "py_index ts (int k) = Inr piece"
      "as_tensor_iterate N w piece ps io d = (Inl e, w')"
      "as_tensor_loop N w ts k n ps io d acc = (Inl e, w')"
  | (continued) piece res w' where "k < n" "py_index ts (int k) = Inr piece"
      "as_tensor_iterate N w piece ps io d = (Inr res, w')"
      "as_tensor_loop N w ts k n ps io d acc =
         as_tensor_loop N w' ts (Suc k) n ps io d (acc @ [res])"
proof (cases "k < n")
  case False
  then have "as_tensor_loop N w ts k n ps io d acc = (Inr acc, w)"
    by (subst as_tensor_loop.simps) simp
  with False finished show ?thesis by blast
next
  case True
  show ?thesis
  proof (cases "py_index ts (int k)")
    case (Inl e)
    then have "as_tensor_loop N w ts k n ps io d acc = (Inl e, w)"
      using True by (subst as_tensor_loop.simps) simp
    with True Inl no_piece show ?thesis by blast
  next
    case (Inr piece)
    obtain r w' where it: "as_tensor_iterate N w piece ps io d = (r, w')"
      by (cases "as_tensor_iterate N w piece ps io d")
    show ?thesis
    proof (cases r)
      case e: (Inl e)
      have "as_tensor_loop N w ts k n ps io d acc = (Inl e, w')"
        using True Inr it e by (subst as_tensor_loop.simps) simp
      with True Inr it e piece_failed show ?thesis by blast
    next
      case res: (Inr res)
      have "as_tensor_loop N w ts k n ps io d acc =
         as_tensor_loop N w' ts (Suc k) n ps io d (acc @ [res])"
        using True Inr it res by (subst as_tensor_loop.simps) simp
      with True Inr it res continued show ?thesis by blast
    qed
  qed
qed

lemma iterate_cases:
  fixes t ps io
  defines "ds \<equiv> data_shape_of t ps"
  defines "io' \<equiv> effective_order io (data_shape_of t ps)"
  obtains (leaf) "depth = length ds"
      "as_tensor_iterate N w t ps io depth = as_tensor_leaf w t ps ds"
  | (no_axis) e where "depth \<noteq> length ds" "py_index io' (int depth) = Inl e"
      "as_tensor_iterate N w t ps io depth = (Inl e, w)"
  | (no_split) sp e where "depth \<noteq> length ds" "py_index io' (int depth) = Inr sp"
      "split1 t (- int (length ds) + sp - 1) = Inl e"
      "as_tensor_iterate N w t ps io depth = (Inl e, w)"
  | (no_length) sp pieces e where "depth \<noteq> length ds" "py_index io' (int depth) = Inr sp"
      "split1 t (- int (length ds) + sp - 1) = Inr pieces" "py_index ds sp = Inl e"
      "as_tensor_iterate N w t ps io depth = (Inl e, w)"
  | (loop_failed) sp pieces n e w1 where "depth \<noteq> length ds"
      "py_index io' (int depth) = Inr sp"
      "split1 t (- int (length ds) + sp - 1) = Inr pieces" "py_index ds sp = Inr n"
      "as_tensor_loop N w pieces 0 n ps io' (Suc depth) [] = (Inl e, w1)"
      "as_tensor_iterate N w t ps io depth = (Inl e, w1)"
  | (stacked) sp pieces n the_successors w1 where "depth \<noteq> length ds"
      "py_index io' (int depth) = Inr sp"
      "split1 t (- int (length ds) + sp - 1) = Inr pieces" "py_index ds sp = Inr n"
      "as_tensor_loop N w pieces 0 n ps io' (Suc depth) [] = (Inr the_successors, w1)"
      "as_tensor_iterate N w t ps io depth = as_tensor_stack N w1 depth the_successors"
proof (cases "depth = length ds")
  case True
  then have "as_tensor_iterate N w t ps io depth = as_tensor_leaf w t ps ds"
    unfolding ds_def by (subst as_tensor_iterate.simps) (simp add: Let_def)
  with True leaf show ?thesis by blast
next
  case False
  note d = False
  show ?thesis
  proof (cases "py_index io' (int depth)")
    case (Inl e)
    then have "as_tensor_iterate N w t ps io depth = (Inl e, w)"
      using d unfolding ds_def io'_def by (subst as_tensor_iterate.simps) (simp add: Let_def)
    with d Inl no_axis show ?thesis by blast
  next
    case sp: (Inr sp)
    show ?thesis
    proof (cases "split1 t (- int (length ds) + sp - 1)")
      case (Inl e)
      then have "as_tensor_iterate N w t ps io depth = (Inl e, w)"
        using d sp unfolding ds_def io'_def
        by (subst as_tensor_iterate.simps) (simp add: Let_def)
      with d sp Inl no_split show ?thesis by blast
    next
      case pc: (Inr pieces)
      show ?thesis
      proof (cases "py_index ds sp")
        case (Inl e)
        then have "as_tensor_iterate N w t ps io depth = (Inl e, w)"
          using d sp pc unfolding ds_def io'_def
          by (subst as_tensor_iterate.simps) (simp add: Let_def)
        with d sp pc Inl no_length show ?thesis by blast
      next
        case n: (Inr n)
        obtain r w1 where lp: "as_tensor_loop N w pieces 0 n ps io' (Suc depth) [] = (r, w1)"
          by (cases "as_tensor_loop N w pieces 0 n ps io' (Suc depth) []")
        show ?thesis
        proof (cases r)
          case e: (Inl e)
          have "as_tensor_iterate N w t ps io depth = (Inl e, w1)"
            using d sp pc n lp e unfolding ds_def io'_def
            by (subst as_tensor_iterate.simps) (simp add: Let_def)
          with d sp pc n lp e loop_failed show ?thesis by blast
        next
          case s: (Inr the_successors)
          have "as_tensor_iterate N w t ps io depth = as_tensor_stack N w1 depth the_successors"
            using d sp pc n lp s unfolding ds_def io'_def
            by (subst as_tensor_iterate.simps) (simp add: Let_def)
          with d sp pc n lp s stacked show ?thesis by blast
        qed
      qed
    qed
  qed
qed


lemma py_index_error: "py_index xs i \<noteq> Inl InvalidInput"
  by (simp add: py_index_def)

lemma split1_error: "split1 t axis \<noteq> Inl InvalidInput"
  by (simp add: split1_def resolve_dim_def split: sum.split)

lemma leaf_error: "fst (as_tensor_leaf w t ps ds) \<noteq> Inl InvalidInput"
  by (simp add: as_tensor_leaf_def leaf_slice_def view_def returning_def Let_def
      split: prod.split)

lemma stack_error: "fst (as_tensor_stack N w depth succs) \<noteq> Inl InvalidInput"
  by (simp add: as_tensor_stack_def stack_def returning_def
      split: sum.split prod.split option.split list.split)

lemma iterate_not_invalid:
  "fst (as_tensor_iterate N w t ps io d) \<noteq> Inl InvalidInput"
  "fst (as_tensor_loop N w ts k n ps io d acc) \<noteq> Inl InvalidInput"
proof (induction N w t ps io d and N w ts k n ps io d acc
    rule: as_tensor_iterate_as_tensor_loop.induct)
  case (1 N w t ps io d)
  show ?case
  proof (cases rule: iterate_cases [of d t ps N w io])
    case leaf
    then show ?thesis by (simp add: leaf_error)
  next
    case (no_axis e)
    then show ?thesis using py_index_error by fastforce
  next
    case (no_split sp e)
    then show ?thesis using split1_error by fastforce
  next
    case (no_length sp pieces e)
    then show ?thesis using py_index_error by fastforce
  next
    case (loop_failed sp pieces n e w1)
    from "1" [OF refl refl loop_failed(1-4)] loop_failed(5,6)
    show ?thesis by simp
  next
    case (stacked sp pieces n the_successors w1)
    then show ?thesis by (simp add: stack_error)
  qed
next
  case (2 N w ts k n ps io d acc)
  show ?case
  proof (cases rule: loop_cases [of k n N w ts ps io d acc])
    case finished
    then show ?thesis by simp
  next
    case (no_piece e)
    then show ?thesis using py_index_error by fastforce
  next
    case (piece_failed piece e w')
    from "2"(1) [OF piece_failed(1,2)] piece_failed(3,4)
    show ?thesis by simp
  next
    case (continued piece res w')
    from "2"(2) [OF continued(1,2)] continued(3,4)
    show ?thesis by simp
  qed
qed


lemma as_tensor_default:
  assumes "to_tensor (core w) arr = (t, st1)" and "elems l = []"
    and "xs = map int [0..<length (data_shape_of t ps)]"
  shows "as_tensor N w (Triple arr ps l) =
     (case as_tensor_iterate N
             (w\<lparr>core := st1\<lparr>next_obj := Suc (next_obj st1)\<rparr>,
                lists := (lists w)(next_obj st1 \<mapsto> xs)\<rparr>) t ps xs 0 of
        (Inl e, w3) \<Rightarrow> (Inl e, w3)
      | (Inr res, w3) \<Rightarrow>
          (Inr (res\<lparr>index_order := \<lparr>lid = next_obj st1, elems = xs\<rparr>,
                   data_shape := data_shape_of t ps\<rparr>), w3))"
  unfolding assms(3) using assms(1,2) by (simp add: as_tensor_def Let_def new_list_def)

lemma as_tensor_given:
  assumes "to_tensor (core w) arr = (t, st1)" and "elems l \<noteq> []"
  shows "as_tensor N w (Triple arr ps l) =
     (if length (data_shape_of t ps) \<noteq> length (elems l)
      then (Inl InvalidInput,
            w\<lparr>core := st1\<lparr>next_obj := Suc (next_obj st1)\<rparr>,
              lists := (lists w)(next_obj st1 \<mapsto> elems l)\<rparr>)
      else case as_tensor_iterate N
             (w\<lparr>core := st1\<lparr>next_obj := Suc (next_obj st1)\<rparr>,
                lists := (lists w)(next_obj st1 \<mapsto> elems l)\<rparr>) t ps (elems l) 0 of
        (Inl e, w3) \<Rightarrow> (Inl e, w3)
      | (Inr res, w3) \<Rightarrow>
          (Inr (res\<lparr>index_order := \<lparr>lid = next_obj st1, elems = elems l\<rparr>,
                   data_shape := data_shape_of t ps\<rparr>), w3))"
  using assms by (simp add: as_tensor_def Let_def new_list_def)

lemma as_tensor_bare:
  "as_tensor N w (Bare arr) = as_tensor N w (Triple arr [] \<lparr>lid = a, elems = []\<rparr>)"
  by (simp add: as_tensor_def)

lemma finish_not_invalid:
  "fst r \<noteq> Inl InvalidInput \<Longrightarrow>
   fst (case r of (Inl e, w3) \<Rightarrow> (Inl e, w3) | (Inr res, w3) \<Rightarrow> (Inr (f res), w3))
     \<noteq> Inl InvalidInput"
  by (cases r; cases "fst r") auto

lemma as_tensor_not_invalid:
  assumes "elems l = [] \<or> length (elems l) = length (data_shape_of (fst (to_tensor (core w) arr)) ps)"
  shows "fst (as_tensor N w (Triple arr ps l)) \<noteq> Inl InvalidInput"
proof -
  obtain t st1 where t: "to_tensor (core w) arr = (t, st1)"
    by (cases "to_tensor (core w) arr")
  show ?thesis
  proof (cases "elems l = []")
    case True
    show ?thesis
      unfolding as_tensor_default [OF t True refl]
      by (rule finish_not_invalid) (rule iterate_not_invalid(1))
  next
    case False
    then have "length (data_shape_of t ps) = length (elems l)"
      using assms t by simp
    then show ?thesis
      unfolding as_tensor_given [OF t False]
      using finish_not_invalid [OF iterate_not_invalid(1)] by simp
  qed
qed

lemma as_tensor_invalid:
  assumes "elems l \<noteq> []"
    and "length (elems l) \<noteq> length (data_shape_of (fst (to_tensor (core w) arr)) ps)"
  shows "fst (as_tensor N w (Triple arr ps l)) = Inl InvalidInput"
proof -
  obtain t st1 where t: "to_tensor (core w) arr = (t, st1)"
    by (cases "to_tensor (core w) arr")
  show ?thesis
    unfolding as_tensor_given [OF t assms(1)] using assms(2) t by simp
qed

lemma as_tensor_index_error:
  "fst (as_tensor normalized_by_one w0 (Triple (Torch t_eye) [] order_off)) = Inl IndexError"
  by (simp add: as_tensor_def to_tensor_def Let_def new_list_def order_off_def t_eye_def
      data_shape_of_def as_tensor_iterate.simps effective_order_def py_index_def split1_def
      resolve_dim_def)


lemma permutation_facts:
  assumes "is_permutation io n"
  shows "length io = n" and "\<And>j. j < n \<Longrightarrow> 0 \<le> io ! j \<and> io ! j < int n"
    and "\<And>i. i < n \<Longrightarrow> \<exists>j<n. nat (io ! j) = i"
proof -
  have s: "sort io = map int [0..<n]"
    using assms by (simp add: is_permutation_def)
  have "length (sort io) = n" unfolding s by simp
  then show l: "length io = n" by simp
  have st: "set io = int ` {0..<n}"
    using arg_cong [OF s, of set] by simp
  show "0 \<le> io ! j \<and> io ! j < int n" if "j < n" for j
  proof -
    have "io ! j \<in> set io" using that l by simp
    then show ?thesis unfolding st by auto
  qed
  show "\<exists>j<n. nat (io ! j) = i" if "i < n" for i
  proof -
    have "int i \<in> set io" unfolding st using that by simp
    then obtain j where "j < length io" "io ! j = int i"
      by (auto simp: in_set_conv_nth)
    then show ?thesis using l by auto
  qed
qed

lemma sliced_data_shape:
  assumes "shape t = ps @ cur @ [2]"
  shows "data_shape_of t ps = cur"
  using assms by (simp add: data_shape_of_def butlast_append)

lemma numel_append: "numel (xs @ ys) = numel xs * numel ys"
  by (simp add: numel_def)

lemma numel_ones: "(\<forall>i<length cur. cur ! i = 1) \<Longrightarrow> numel cur = 1"
proof (induction cur)
  case Nil
  then show ?case by (simp add: numel_def)
next
  case (Cons a cur)
  have "a = 1" using Cons.prems [rule_format, of 0] by simp
  moreover have "\<forall>i<length cur. cur ! i = 1"
    using Cons.prems by fastforce
  ultimately show ?case using Cons.IH by (simp add: numel_def)
qed

lemma leaf_succeeds:
  assumes "is_permutation io n" and "sliced ps n io n (shape t)"
  shows "\<exists>tdd w'. as_tensor_leaf w t ps (data_shape_of t ps) = (Inr tdd, w')
     \<and> shape (weights tdd) = ps @ [2]"
proof -
  obtain cur where sh: "shape t = ps @ cur @ [2]" and len: "length cur = n"
    and one: "\<forall>j<n. cur ! nat (io ! j) = 1"
    using assms(2) by (auto simp: sliced_def)
  have ds: "data_shape_of t ps = cur"
    using sh by (rule sliced_data_shape)
  have all1: "\<forall>i<length cur. cur ! i = 1"
  proof (intro allI impI)
    fix i assume "i < length cur"
    then obtain j where "j < n" "nat (io ! j) = i"
      using permutation_facts(3) [OF assms(1)] len by blast
    then show "cur ! i = 1" using one by auto
  qed
  show ?thesis
  proof (cases "n = 0")
    case True
    then have "cur = []" using len by simp
    then show ?thesis
      using sh ds by (simp add: as_tensor_leaf_def clone_def returning_def new_TDD_def new_list_def)
  next
    case False
    let ?r = "length (shape t)"
    have r: "?r = length ps + n + 1" using sh len by simp
    have last1: "shape t ! (?r - 2) = 1"
    proof -
      have "?r - 2 = length ps + (n - 1)" using r False by simp
      moreover have "(ps @ cur @ [2]) ! (length ps + (n - 1)) = (cur @ [2]) ! (n - 1)"
        by (rule nth_append_length_plus)
      moreover have "(cur @ [2]) ! (n - 1) = cur ! (n - 1)"
        using len False by (simp add: nth_append)
      ultimately have "shape t ! (?r - 2) = cur ! (n - 1)"
        using sh by simp
      then show ?thesis using all1 len False by simp
    qed
    have nar: "shape (narrow t (?r - 2) 0 (min 1 (shape t ! (?r - 2)))) = shape t"
      using last1 list_update_id [of "shape t" "?r - 2"] by (simp add: narrow_def Let_def)
    have ls: "leaf_slice t = Inr (narrow t (?r - 2) 0 (min 1 (shape t ! (?r - 2))))"
      using r False by (simp add: leaf_slice_def Let_def)
    have nm: "numel (ps @ [2]) = numel (shape t)"
      using sh numel_ones [OF all1] by (simp add: numel_append)
    show ?thesis
      using False len ds ls nar nm
      by (simp add: as_tensor_leaf_def clone_def view_def returning_def new_TDD_def new_list_def)
  qed
qed


lemma stack_succeeds:
  assumes "returns_weight N" and "succs \<noteq> []"
    and "\<forall>a\<in>set succs. shape (weights a) = ps @ [2]"
  shows "\<exists>tdd w'. as_tensor_stack N w depth succs = (Inr tdd, w')
     \<and> shape (weights tdd) = ps @ [2]"
proof -
  obtain a rest where sc: "succs = a # rest"
    using assms(2) by (cases succs) auto
  have same: "list_all (\<lambda>t'. shape t' = shape (weights a)) (map weights rest)"
    using assms(3) sc by (auto simp: list_all_iff)
  let ?out = "\<lparr>storage = next_obj (core w), shape = length succs # ps @ [2],
               data = concat (map data (map weights succs))\<rparr>"
  let ?st2 = "(core w)\<lparr>next_obj := Suc (next_obj (core w))\<rparr>"
  have st: "stack (core w) (map weights succs) = Inr (?out, ?st2)"
    using sc same assms(3) by (simp add: stack_def)
  obtain temp st3 where cn:
    "construct_node ?st2 0 (int depth) ?out (map node succs) = (temp, st3)"
    by (cases "construct_node ?st2 0 (int depth) ?out (map node succs)")
  obtain dangle st4 where on: "ones st3 (butlast (tl (shape ?out))) = (dangle, st4)"
    by (cases "ones st3 (butlast (tl (shape ?out)))")
  have dsh: "shape dangle = ps @ [2]"
    using on by (auto simp: ones_def butlast_append)
  obtain n w' st5 where nn: "N st4 temp dangle False = (Some (n, w'), st5)"
    and wsh: "shape w' = shape dangle"
    using assms(1) unfolding returns_weight_def by blast
  show ?thesis
    using st cn on nn wsh dsh
    by (simp add: as_tensor_stack_def returning_def new_TDD_def new_list_def)
qed

lemma narrow_shape: "shape (narrow t a i len) = (shape t)[a := len]"
  by (simp add: narrow_def Let_def)

lemma split_succeeds:
  assumes "is_permutation io n" and "sliced ps n io d (shape t)" and "d < n"
  shows "\<exists>e pieces. py_index io (int d) = Inr e
     \<and> split1 t (- int (length (data_shape_of t ps)) + e - 1) = Inr pieces
     \<and> py_index (data_shape_of t ps) e = Inr (length pieces)
     \<and> pieces \<noteq> [] \<and> (\<forall>p\<in>set pieces. sliced ps n io (Suc d) (shape p))"
proof -
  obtain cur where sh: "shape t = ps @ cur @ [2]" and len: "length cur = n"
    and one: "\<forall>j<d. cur ! nat (io ! j) = 1" and pos: "\<forall>i<n. 0 < cur ! i"
    using assms(2) by (auto simp: sliced_def)
  have ds: "data_shape_of t ps = cur"
    using sh by (rule sliced_data_shape)
  note pf = permutation_facts [OF assms(1)]
  let ?e = "io ! d"
  have e: "0 \<le> ?e" "?e < int n" using pf(2) [OF assms(3)] by simp_all
  have en: "nat ?e < n" using e by simp
  have pi: "py_index io (int d) = Inr ?e"
    using pf(1) assms(3) by (simp add: py_index_def)
  let ?a = "length ps + nat ?e"
  have rk: "length (shape t) = length ps + n + 1" using sh len by simp
  have rd: "resolve_dim (length (shape t)) (- int n + ?e - 1) = Inr ?a"
    using rk e by (auto simp: resolve_dim_def nat_add_distrib)
  have ax: "shape t ! ?a = cur ! nat ?e"
  proof -
    have "(ps @ cur @ [2]) ! (length ps + nat ?e) = (cur @ [2]) ! nat ?e"
      by (rule nth_append_length_plus)
    then show ?thesis using sh len en by (simp add: nth_append)
  qed
  have m: "0 < cur ! nat ?e" using pos en by simp
  let ?pieces = "map (\<lambda>i. narrow t ?a i 1) [0..<cur ! nat ?e]"
  have sp: "split1 t (- int (length (data_shape_of t ps)) + ?e - 1) = Inr ?pieces"
    using sh rd ax m ds len by (simp add: split1_def)
  have pl: "py_index (data_shape_of t ps) ?e = Inr (length ?pieces)"
    using ds len e en by (simp add: py_index_def)
  have ne: "?pieces \<noteq> []" using m by simp
  have sl: "\<forall>p\<in>set ?pieces. sliced ps n io (Suc d) (shape p)"
  proof
    fix p assume "p \<in> set ?pieces"
    then have psh: "shape p = (shape t)[?a := 1]"
      by (auto simp: narrow_shape)
    let ?cur = "cur[nat ?e := 1]"
    have "(ps @ cur @ [2])[length ps + nat ?e := 1] = ps @ (cur @ [2])[nat ?e := 1]"
      by (simp add: list_update_append)
    also have "\<dots> = ps @ ?cur @ [2]"
      using en len by (simp add: list_update_append)
    finally have s1: "shape p = ps @ ?cur @ [2]" using psh sh by simp
    have s2: "length ?cur = n" using len by simp
    have s3: "\<forall>j<Suc d. ?cur ! nat (io ! j) = 1"
    proof (intro allI impI)
      fix j assume j: "j < Suc d"
      have jn: "j < n" using j assms(3) by simp
      have b: "nat (io ! j) < length cur" using pf(2) [OF jn] len by auto
      show "?cur ! nat (io ! j) = 1"
      proof (cases "nat (io ! j) = nat ?e")
        case True
        then show ?thesis using b by simp
      next
        case False
        then have "j \<noteq> d" by auto
        then have "j < d" using j by simp
        then show ?thesis using one False by simp
      qed
    qed
    have s4: "\<forall>i<n. 0 < ?cur ! i"
      using pos len en by (auto simp: nth_list_update)
    from s1 s2 s3 s4 show "sliced ps n io (Suc d) (shape p)"
      unfolding sliced_def by blast
  qed
  from pi sp pl ne sl show ?thesis by blast
qed


lemma sliced_length: "sliced ps n io d (shape t) \<Longrightarrow> length (data_shape_of t ps) = n"
  using sliced_data_shape by (auto simp: sliced_def)

lemma effective_permutation:
  "is_permutation io n \<Longrightarrow> length ds = n \<Longrightarrow> effective_order io ds = io"
  using permutation_facts(1) [of io n] by (auto simp: effective_order_def)

lemma iterate_succeeds:
  "returns_weight N \<Longrightarrow> is_permutation io n \<Longrightarrow> sliced ps n io d (shape t) \<Longrightarrow> d \<le> n \<Longrightarrow>
     \<exists>tdd w'. as_tensor_iterate N w t ps io d = (Inr tdd, w') \<and> shape (weights tdd) = ps @ [2]"
  "returns_weight N \<Longrightarrow> is_permutation io n \<Longrightarrow> \<forall>p\<in>set ts. sliced ps n io d (shape p) \<Longrightarrow>
     d \<le> n \<Longrightarrow> m \<le> length ts \<Longrightarrow> \<forall>a\<in>set acc. shape (weights a) = ps @ [2] \<Longrightarrow>
     \<exists>succs w'. as_tensor_loop N w ts k m ps io d acc = (Inr succs, w')
       \<and> (\<forall>a\<in>set succs. shape (weights a) = ps @ [2])
       \<and> length succs = length acc + (m - k)"
proof (induction N w t ps io d and N w ts k m ps io d acc
    rule: as_tensor_iterate_as_tensor_loop.induct)
  case (1 N w t ps io d)
  note N = "1.prems"(1) and perm = "1.prems"(2) and sl = "1.prems"(3) and dn = "1.prems"(4)
  have ln: "length (data_shape_of t ps) = n"
    using sl by (rule sliced_length)
  have eo: "effective_order io (data_shape_of t ps) = io"
    using perm ln by (rule effective_permutation)
  show ?case
  proof (cases "d = n")
    case True
    have "as_tensor_iterate N w t ps io d = as_tensor_leaf w t ps (data_shape_of t ps)"
      using True ln by (cases rule: iterate_cases [of d t ps N w io]) simp_all
    then show ?thesis
      using leaf_succeeds [OF perm] sl True by simp
  next
    case False
    then have lt: "d < n" using dn by simp
    obtain e pieces where pi: "py_index io (int d) = Inr e"
      and sp: "split1 t (- int (length (data_shape_of t ps)) + e - 1) = Inr pieces"
      and pl: "py_index (data_shape_of t ps) e = Inr (length pieces)"
      and ne: "pieces \<noteq> []"
      and ps': "\<forall>p\<in>set pieces. sliced ps n io (Suc d) (shape p)"
      using split_succeeds [OF perm sl lt] by blast
    have dl: "d \<noteq> length (data_shape_of t ps)" using False ln by simp
    have pi': "py_index (effective_order io (data_shape_of t ps)) (int d) = Inr e"
      using pi eo by simp
    have "\<exists>succs w'. as_tensor_loop N w pieces 0 (length pieces) ps
              (effective_order io (data_shape_of t ps)) (Suc d) [] = (Inr succs, w')
       \<and> (\<forall>a\<in>set succs. shape (weights a) = ps @ [2])
       \<and> length succs = length [] + (length pieces - 0)"
      using "1.IH" [OF refl refl dl pi' sp pl N] perm ps' lt eo by simp
    then obtain succs w1 where lp: "as_tensor_loop N w pieces 0 (length pieces) ps
              (effective_order io (data_shape_of t ps)) (Suc d) [] = (Inr succs, w1)"
      and sh: "\<forall>a\<in>set succs. shape (weights a) = ps @ [2]"
      and le: "length succs = length pieces"
      by auto
    have sne: "succs \<noteq> []" using le ne by auto
    have "as_tensor_iterate N w t ps io d = as_tensor_stack N w1 d succs"
      using dl pi' sp pl lp by (cases rule: iterate_cases [of d t ps N w io]) simp_all
    then show ?thesis
      using stack_succeeds [OF N sne sh] by simp
  qed
next
  case (2 N w ts k m ps io d acc)
  note N = "2.prems"(1) and perm = "2.prems"(2) and sl = "2.prems"(3) and dn = "2.prems"(4)
    and ml = "2.prems"(5) and ac = "2.prems"(6)
  show ?case
  proof (cases "k < m")
    case False
    then have "as_tensor_loop N w ts k m ps io d acc = (Inr acc, w)"
      by (subst as_tensor_loop.simps) simp
    then show ?thesis using ac False by simp
  next
    case True
    then have kl: "k < length ts" using ml by simp
    then have pk: "py_index ts (int k) = Inr (ts ! k)"
      by (simp add: py_index_def)
    have slk: "sliced ps n io d (shape (ts ! k))"
      using sl kl by simp
    obtain res w' where it: "as_tensor_iterate N w (ts ! k) ps io d = (Inr res, w')"
      and rs: "shape (weights res) = ps @ [2]"
      using "2.IH"(1) [OF True pk N perm slk dn] by blast
    have ac': "\<forall>a\<in>set (acc @ [res]). shape (weights a) = ps @ [2]"
      using ac rs by simp
    obtain succs w'' where lp: "as_tensor_loop N w' ts (Suc k) m ps io d (acc @ [res])
          = (Inr succs, w'')"
      and sh: "\<forall>a\<in>set succs. shape (weights a) = ps @ [2]"
      and le: "length succs = length (acc @ [res]) + (m - Suc k)"
      using "2.IH"(2) [OF True pk _ _ N perm sl dn ml ac'] it by fastforce
    have "as_tensor_loop N w ts k m ps io d acc
        = as_tensor_loop N w' ts (Suc k) m ps io d (acc @ [res])"
      using True pk it by (subst as_tensor_loop.simps) simp
    then show ?thesis using lp sh le True by auto
  qed
qed


lemma identity_permutation: "is_permutation (map int [0..<n]) n"
proof -
  have "sorted (map int [0..<n])"
    by (induction n) (auto simp add: sorted_append)
  then show ?thesis
    unfolding is_permutation_def by (rule sorted_sort_id)
qed

lemma sliced_start:
  assumes "shape t = ps @ ds @ [2]" and "\<forall>x\<in>set ds. 0 < x"
  shows "sliced ps (length ds) io 0 (shape t)"
  using assms unfolding sliced_def by auto

lemma finish_succeeds:
  assumes "r = (Inr tdd', w')"
  shows "(case r of (Inl e, w3) \<Rightarrow> (Inl e, w3) | (Inr res, w3) \<Rightarrow> (Inr (f res), w3))
     = (Inr (f tdd'), w')"
  using assms by simp

lemma as_tensor_succeeds:
  assumes "returns_weight N" and "shape (fst (to_tensor (core w) arr)) = ps @ ds @ [2]"
    and "\<forall>x\<in>set ds. 0 < x" and "elems l = [] \<or> is_permutation (elems l) (length ds)"
  shows "\<exists>tdd. fst (as_tensor N w (Triple arr ps l)) = Inr tdd \<and> data_shape tdd = ds
     \<and> elems (index_order tdd) = effective_order (elems l) ds
     \<and> shape (weights tdd) = ps @ [2]"
proof -
  obtain t st1 where t: "to_tensor (core w) arr = (t, st1)"
    by (cases "to_tensor (core w) arr")
  have sh: "shape t = ps @ ds @ [2]" using assms(2) t by simp
  have dso: "data_shape_of t ps = ds" using sh by (rule sliced_data_shape)
  have sl: "sliced ps (length ds) io 0 (shape t)" for io
    using sh assms(3) by (rule sliced_start)
  show ?thesis
  proof (cases "elems l = []")
    case True
    let ?xs = "map int [0..<length (data_shape_of t ps)]"
    let ?w2 = "w\<lparr>core := st1\<lparr>next_obj := Suc (next_obj st1)\<rparr>,
                lists := (lists w)(next_obj st1 \<mapsto> ?xs)\<rparr>"
    have perm: "is_permutation ?xs (length ds)"
      using dso identity_permutation by simp
    obtain tdd' w' where it: "as_tensor_iterate N ?w2 t ps ?xs 0 = (Inr tdd', w')"
      and ws: "shape (weights tdd') = ps @ [2]"
      using iterate_succeeds(1) [OF assms(1) perm sl, of ?w2] by auto
    show ?thesis
      unfolding as_tensor_default [OF t True refl] finish_succeeds [OF it]
      using ws dso True by (simp add: effective_order_def)
  next
    case False
    let ?w2 = "w\<lparr>core := st1\<lparr>next_obj := Suc (next_obj st1)\<rparr>,
                lists := (lists w)(next_obj st1 \<mapsto> elems l)\<rparr>"
    have perm: "is_permutation (elems l) (length ds)"
      using assms(4) False by simp
    have len: "length (data_shape_of t ps) = length (elems l)"
      using permutation_facts(1) [OF perm] dso by simp
    obtain tdd' w' where it: "as_tensor_iterate N ?w2 t ps (elems l) 0 = (Inr tdd', w')"
      and ws: "shape (weights tdd') = ps @ [2]"
      using iterate_succeeds(1) [OF assms(1) perm sl, of ?w2] by auto
    show ?thesis
      unfolding as_tensor_given [OF t False] using len
      by (simp add: finish_succeeds [OF it] ws dso False effective_order_def)
  qed
qed

lemma normalized_by_one_returns: "returns_weight normalized_by_one"
  unfolding returns_weight_def normalized_by_one_def
  by (auto split: prod.split)

text \<open>
  Claim C5 (import validation), amended. For a triple, the import raises \<open>InvalidInput\<close>
  exactly when the supplied index order is not empty and its length differs from the number
  of data axes. The import succeeds, with the data shape and the index order in force in the
  result and weights of the batch shape, when the tensor has the shape
  \<^verbatim>\<open>batch_shape + data_shape + [2]\<close>, no data axis is empty, the index order is empty or a
  permutation of the data axes, and \<^verbatim>\<open>normalized\<close> returns a weight of the shape of the
  one it is given. A bare tensor never raises \<open>InvalidInput\<close>, and its import succeeds
  under the same conditions, with the identity order.
\<close>

theorem as_tensor_validation:
  "(fst (as_tensor N w (Triple arr batch_shape l)) = Inl InvalidInput
      \<longleftrightarrow> elems l \<noteq> []
          \<and> length (elems l)
              \<noteq> length (data_shape_of (fst (to_tensor (core w) arr)) batch_shape))
   \<and> (returns_weight N \<longrightarrow>
        shape (fst (to_tensor (core w) arr)) = batch_shape @ ds @ [2] \<longrightarrow>
        (\<forall>x\<in>set ds. 0 < x) \<longrightarrow>
        elems l = [] \<or> is_permutation (elems l) (length ds) \<longrightarrow>
        (\<exists>tdd. fst (as_tensor N w (Triple arr batch_shape l)) = Inr tdd
           \<and> data_shape tdd = ds
           \<and> elems (index_order tdd) = effective_order (elems l) ds
           \<and> shape (weights tdd) = batch_shape @ [2]))
   \<and> fst (as_tensor N w (Bare arr)) \<noteq> Inl InvalidInput
   \<and> (returns_weight N \<longrightarrow>
        shape (fst (to_tensor (core w) arr)) = bs @ [2] \<longrightarrow>
        (\<forall>x\<in>set bs. 0 < x) \<longrightarrow>
        (\<exists>tdd. fst (as_tensor N w (Bare arr)) = Inr tdd
           \<and> data_shape tdd = bs
           \<and> elems (index_order tdd) = map int [0..<length bs]
           \<and> shape (weights tdd) = [2]))"
proof -
  have a: "fst (as_tensor N w (Triple arr batch_shape l)) = Inl InvalidInput
      \<longleftrightarrow> elems l \<noteq> []
          \<and> length (elems l)
              \<noteq> length (data_shape_of (fst (to_tensor (core w) arr)) batch_shape)"
    using as_tensor_invalid [of l w arr batch_shape N]
      as_tensor_not_invalid [of l w arr batch_shape N] by blast
  have b: "fst (as_tensor N w (Bare arr)) \<noteq> Inl InvalidInput"
    unfolding as_tensor_bare [of N w arr 0]
    by (rule as_tensor_not_invalid) simp
  have c: "\<exists>tdd. fst (as_tensor N w (Bare arr)) = Inr tdd
           \<and> data_shape tdd = bs
           \<and> elems (index_order tdd) = map int [0..<length bs]
           \<and> shape (weights tdd) = [2]"
    if "returns_weight N" and "shape (fst (to_tensor (core w) arr)) = bs @ [2]"
      and "\<forall>x\<in>set bs. 0 < x"
    unfolding as_tensor_bare [of N w arr 0]
    using as_tensor_succeeds [of N w arr "[]" bs "\<lparr>lid = 0, elems = []\<rparr>"] that
    by (simp add: effective_order_def)
  from a b c as_tensor_succeeds [of N w arr batch_shape ds l] show ?thesis
    by blast
qed

theorem as_tensor_validation_witness:
  "returns_weight normalized_by_one
   \<and> shape (fst (to_tensor (core w0) (Torch t_eye))) = [] @ [2, 2] @ [2]
   \<and> list_all (\<lambda>x. 0 < x) [2, 2::nat]
   \<and> is_permutation (elems order_swap) (length [2, 2::nat])
   \<and> (\<exists>tdd. fst (as_tensor normalized_by_one w0 (Triple (Torch t_eye) [] order_swap)) = Inr tdd
        \<and> data_shape tdd = [2, 2] \<and> elems (index_order tdd) = [1, 0]
        \<and> shape (weights tdd) = [2])
   \<and> fst (as_tensor normalized_by_one w0 (Triple (Torch w_batch3) [1] order_swap))
        = Inl InvalidInput"
proof -
  have h1: "returns_weight normalized_by_one"
    by (rule normalized_by_one_returns)
  have h2: "shape (fst (to_tensor (core w0) (Torch t_eye))) = [] @ [2, 2] @ [2]"
    by (simp add: to_tensor_def t_eye_def)
  have h3: "\<forall>x\<in>set [2, 2::nat]. 0 < x" by simp
  have h3': "list_all (\<lambda>x. 0 < x) [2, 2::nat]" by simp
  have h4: "is_permutation (elems order_swap) (length [2, 2::nat])"
    by (simp add: is_permutation_def order_swap_def numeral_2_eq_2)
  have h5: "elems order_swap \<noteq> []
     \<and> length (elems order_swap)
         \<noteq> length (data_shape_of (fst (to_tensor (core w0) (Torch w_batch3))) [1])"
    by (simp add: order_swap_def to_tensor_def w_batch3_def data_shape_of_def)
  from as_tensor_validation [of normalized_by_one w0 "Torch t_eye" "[]" order_swap "[2, 2]"]
    as_tensor_validation [of normalized_by_one w0 "Torch w_batch3" "[1]" order_swap "[]"]
    h1 h2 h3 h3' h4 h5
  show ?thesis
    by (simp add: effective_order_def order_swap_def)
qed

text \<open>
  Claim C5 as stated fails: the index order \<open>[2, 0]\<close> has the length of the two data axes
  of the identity matrix, and the import raises \<open>IndexError\<close> at
  \<^verbatim>\<open>data_shape[split_pos]\<close>.
\<close>

theorem as_tensor_index_error_counterexample:
  "length (elems order_off) = length (data_shape_of t_eye [])
   \<and> fst (as_tensor normalized_by_one w0 (Triple (Torch t_eye) [] order_off)) = Inl IndexError"
  using as_tensor_index_error by (simp add: order_off_def t_eye_def data_shape_of_def)


section \<open>The frame of the import\<close>

lemma leaf_frame:
  assumes "as_tensor_leaf w t ps ds = (r, w')"
  shows "(\<forall>a<next_obj (core w). lists w' a = lists w a)
     \<and> (\<forall>tdd. r = Inr tdd \<longrightarrow> next_obj (core w) \<le> next_obj (core w')
           \<and> unique_table (core w') = unique_table (core w)
           \<and> node tdd = None \<and> next_obj (core w) \<le> storage (weights tdd))"
  using assms
  by (auto simp: as_tensor_leaf_def clone_def view_def returning_def new_TDD_def
      new_list_def split: if_splits sum.splits)

lemma node_storages_map:
  "set (node_storages_list (map node succs)) = (\<Union>a\<in>set succs. set (node_storages (node a)))"
  by (induction succs) auto

lemma table_storages_next [simp]:
  "table_storages (st\<lparr>next_obj := k\<rparr>) = table_storages st"
  by (simp add: table_storages_def)

lemma stack_frame:
  assumes N: "detaching N" and st: "as_tensor_stack N w d succs = (r, w')"
  shows "(\<forall>a<next_obj (core w). lists w' a = lists w a)
     \<and> (\<forall>tdd. r = Inr tdd \<longrightarrow> next_obj (core w) \<le> next_obj (core w')
           \<and> (s0 < next_obj (core w) \<longrightarrow> s0 \<notin> set (table_storages (core w)) \<longrightarrow>
               (\<forall>a\<in>set succs. s0 \<notin> set (tdd_storages a)) \<longrightarrow>
               s0 \<notin> set (table_storages (core w')) \<and> s0 \<notin> set (tdd_storages tdd)))"
proof (cases "stack (core w) (map weights succs)")
  case (Inl e)
  then show ?thesis using st by (auto simp: as_tensor_stack_def)
next
  case (Inr p)
  obtain out st2 where p: "p = (out, st2)" by (cases p)
  have so: "storage out = next_obj (core w)" and s2: "st2 = (core w)\<lparr>next_obj := Suc (next_obj (core w))\<rparr>"
    using Inr p by (auto simp: stack_def split: list.splits if_splits)
  let ?temp = "Node (next_obj st2) 0 (int d) out (map node succs)"
  let ?st3 = "st2\<lparr>next_obj := Suc (next_obj st2)\<rparr>"
  let ?dangle = "\<lparr>storage = next_obj ?st3, shape = butlast (tl (shape out)) @ [2],
       data = concat (replicate (numel (butlast (tl (shape out)))) [1, 0])\<rparr>"
  let ?st4 = "?st3\<lparr>next_obj := Suc (next_obj ?st3)\<rparr>"
  obtain x st5 where nn: "N ?st4 ?temp ?dangle False = (x, st5)"
    by (cases "N ?st4 ?temp ?dangle False")
  have unf: "as_tensor_stack N w d succs =
      (case x of None \<Rightarrow> (Inl HelperFailure, w\<lparr>core := st5\<rparr>)
       | Some (new_node, new_dangle_weights) \<Rightarrow>
           returning (new_TDD (w\<lparr>core := st5\<rparr>) new_dangle_weights new_node))"
    using Inr p nn by (simp add: as_tensor_stack_def construct_node_def ones_def)
  show ?thesis
  proof (cases x)
    case None
    then show ?thesis using unf st by auto
  next
    case (Some q)
    obtain n nw where q: "q = (n, nw)" by (cases q)
    have nn': "N ?st4 ?temp ?dangle False = (Some (n, nw), st5)"
      using nn Some q by simp
    from N [unfolded detaching_def, rule_format, OF nn']
    have mono: "next_obj ?st4 \<le> next_obj st5"
      and det: "\<And>s. s < next_obj ?st4 \<Longrightarrow>
          s \<in> set (storage nw # node_storages n @ table_storages st5) \<Longrightarrow>
          s \<in> set (storage ?dangle # node_storages (Some ?temp) @ table_storages ?st4)"
      by blast+
    have r: "r = Inr \<lparr>weights = nw, data_shape = [], node = n,
                 index_order = \<lparr>lid = next_obj st5, elems = []\<rparr>\<rparr>"
      and w': "w' = w\<lparr>core := st5\<lparr>next_obj := Suc (next_obj st5)\<rparr>,
                 lists := (lists w)(next_obj st5 \<mapsto> [])\<rparr>"
      using unf st Some q by (auto simp: returning_def new_TDD_def new_list_def)
    have lt: "next_obj (core w) < next_obj st5" using mono s2 by simp
    have frame: "\<forall>a<next_obj (core w). lists w' a = lists w a"
      using lt w' by auto
    have m: "next_obj (core w) \<le> next_obj (core w')" using lt w' by simp
    have sto: "s0 \<notin> set (table_storages (core w')) \<and> s0 \<notin> set (tdd_storages tdd)"
      if a: "s0 < next_obj (core w)" and b: "s0 \<notin> set (table_storages (core w))"
        and c: "\<forall>a\<in>set succs. s0 \<notin> set (tdd_storages a)" and t: "r = Inr tdd" for tdd
    proof -
      have lt4: "s0 < next_obj ?st4" using a s2 by simp
      have "s0 \<notin> set (storage ?dangle # node_storages (Some ?temp) @ table_storages ?st4)"
        using a b c so s2 by (auto simp: node_storages_map tdd_storages_def)
      then have "s0 \<notin> set (storage nw # node_storages n @ table_storages st5)"
        using det [OF lt4] by blast
      then show ?thesis using r t w' by (auto simp: tdd_storages_def)
    qed
    from frame m sto show ?thesis by blast
  qed
qed


lemma iterate_frame:
  "detaching N \<Longrightarrow> as_tensor_iterate N w t ps io d = (r, w') \<Longrightarrow>
     (\<forall>a<next_obj (core w). lists w' a = lists w a)
     \<and> (\<forall>tdd. r = Inr tdd \<longrightarrow> next_obj (core w) \<le> next_obj (core w')
           \<and> (s0 < next_obj (core w) \<longrightarrow> s0 \<notin> set (table_storages (core w)) \<longrightarrow>
               s0 \<notin> set (table_storages (core w')) \<and> s0 \<notin> set (tdd_storages tdd)))"
  "detaching N \<Longrightarrow> as_tensor_loop N w ts k n ps io d acc = (rs, w') \<Longrightarrow>
     (\<forall>a<next_obj (core w). lists w' a = lists w a)
     \<and> (\<forall>succs. rs = Inr succs \<longrightarrow> next_obj (core w) \<le> next_obj (core w')
           \<and> (s0 < next_obj (core w) \<longrightarrow> s0 \<notin> set (table_storages (core w)) \<longrightarrow>
               (\<forall>a\<in>set acc. s0 \<notin> set (tdd_storages a)) \<longrightarrow>
               s0 \<notin> set (table_storages (core w'))
               \<and> (\<forall>a\<in>set succs. s0 \<notin> set (tdd_storages a))))"
proof (induction N w t ps io d and N w ts k n ps io d acc arbitrary: r w' and rs w'
    rule: as_tensor_iterate_as_tensor_loop.induct)
  case (1 N w t ps io d)
  note N = "1.prems"(1) and res = "1.prems"(2)
  show ?case
  proof (cases rule: iterate_cases [of d t ps N w io])
    case leaf
    then have lf: "as_tensor_leaf w t ps (data_shape_of t ps) = (r, w')"
      using res by simp
    note f = leaf_frame [OF lf]
    have "table_storages (core w') = table_storages (core w)" if "r = Inr tdd" for tdd
      using f that by (simp add: table_storages_def)
    then show ?thesis using f by (auto simp: tdd_storages_def)
  next
    case (no_axis e)
    then show ?thesis using res by auto
  next
    case (no_split sp e)
    then show ?thesis using res by auto
  next
    case (no_length sp pieces e)
    then show ?thesis using res by auto
  next
    case (loop_failed sp pieces n e w1)
    from "1.IH" [OF refl refl loop_failed(1-4) N loop_failed(5)] loop_failed(6) res
    show ?thesis by auto
  next
    case (stacked sp pieces n the_successors w1)
    note lp = "1.IH" [OF refl refl stacked(1-4) N stacked(5)]
    have st: "as_tensor_stack N w1 d the_successors = (r, w')"
      using stacked(6) res by simp
    note sf = stack_frame [OF N st, of s0]
    have m1: "next_obj (core w) \<le> next_obj (core w1)" using lp by simp
    have frame: "\<forall>a<next_obj (core w). lists w' a = lists w a"
      using lp sf m1 by auto
    have rest: "next_obj (core w) \<le> next_obj (core w')
           \<and> (s0 < next_obj (core w) \<longrightarrow> s0 \<notin> set (table_storages (core w)) \<longrightarrow>
               s0 \<notin> set (table_storages (core w')) \<and> s0 \<notin> set (tdd_storages tdd))"
      if t: "r = Inr tdd" for tdd
    proof -
      have m2: "next_obj (core w1) \<le> next_obj (core w')" using sf t by simp
      have "s0 \<notin> set (table_storages (core w')) \<and> s0 \<notin> set (tdd_storages tdd)"
        if a: "s0 < next_obj (core w)" and b: "s0 \<notin> set (table_storages (core w))"
      proof -
        have "s0 \<notin> set (table_storages (core w1))
            \<and> (\<forall>a\<in>set the_successors. s0 \<notin> set (tdd_storages a))"
          using lp a b by simp
        moreover have "s0 < next_obj (core w1)" using a m1 by simp
        ultimately show ?thesis using sf t by blast
      qed
      then show ?thesis using m1 m2 by auto
    qed
    from frame rest show ?thesis by blast
  qed
next
  case (2 N w ts k n ps io d acc)
  note N = "2.prems"(1) and res = "2.prems"(2)
  show ?case
  proof (cases rule: loop_cases [of k n N w ts ps io d acc])
    case finished
    then show ?thesis using res by auto
  next
    case (no_piece e)
    then show ?thesis using res by auto
  next
    case (piece_failed piece e w1)
    from "2.IH"(1) [OF piece_failed(1,2) N piece_failed(3)] piece_failed(4) res
    show ?thesis by auto
  next
    case (continued piece res1 w1)
    note it = "2.IH"(1) [OF continued(1,2) N continued(3)]
    have lp0: "as_tensor_loop N w1 ts (Suc k) n ps io d (acc @ [res1]) = (rs, w')"
      using continued(4) res by simp
    note lp = "2.IH"(2) [OF continued(1,2) continued(3) [symmetric] refl N lp0]
    have m1: "next_obj (core w) \<le> next_obj (core w1)" using it by simp
    have frame: "\<forall>a<next_obj (core w). lists w' a = lists w a"
      using lp it m1 by auto
    have rest: "next_obj (core w) \<le> next_obj (core w')
           \<and> (s0 < next_obj (core w) \<longrightarrow> s0 \<notin> set (table_storages (core w)) \<longrightarrow>
               (\<forall>a\<in>set acc. s0 \<notin> set (tdd_storages a)) \<longrightarrow>
               s0 \<notin> set (table_storages (core w'))
               \<and> (\<forall>a\<in>set succs. s0 \<notin> set (tdd_storages a)))"
      if t: "rs = Inr succs" for succs
    proof -
      have m2: "next_obj (core w1) \<le> next_obj (core w')" using lp t by simp
      have "s0 \<notin> set (table_storages (core w'))
               \<and> (\<forall>a\<in>set succs. s0 \<notin> set (tdd_storages a))"
        if a: "s0 < next_obj (core w)" and b: "s0 \<notin> set (table_storages (core w))"
          and c: "\<forall>a\<in>set acc. s0 \<notin> set (tdd_storages a)"
      proof -
        have "s0 \<notin> set (table_storages (core w1)) \<and> s0 \<notin> set (tdd_storages res1)"
          using it a b by simp
        moreover have "s0 < next_obj (core w1)" using a m1 by simp
        ultimately show ?thesis using lp t c by auto
      qed
      then show ?thesis using m1 m2 by auto
    qed
    from frame rest show ?thesis by blast
  qed
qed


lemma as_tensor_cases [consumes 1, case_names invalid failed imported]:
  fixes w arr t st1 ps l
  assumes t: "to_tensor (core w) arr = (t, st1)"
  defines "xs \<equiv> effective_order (elems l) (data_shape_of t ps)"
  defines "w2 \<equiv> w\<lparr>core := st1\<lparr>next_obj := Suc (next_obj st1)\<rparr>,
                 lists := (lists w)(next_obj st1 \<mapsto> xs)\<rparr>"
  obtains (invalid) "as_tensor N w (Triple arr ps l) = (Inl InvalidInput, w2)"
  | (failed) e w3 where "as_tensor_iterate N w2 t ps xs 0 = (Inl e, w3)"
      "as_tensor N w (Triple arr ps l) = (Inl e, w3)"
  | (imported) res w3 where "as_tensor_iterate N w2 t ps xs 0 = (Inr res, w3)"
      "as_tensor N w (Triple arr ps l) =
         (Inr (res\<lparr>index_order := \<lparr>lid = next_obj st1, elems = xs\<rparr>,
                  data_shape := data_shape_of t ps\<rparr>), w3)"
proof -
  obtain r2 w3 where it: "as_tensor_iterate N w2 t ps xs 0 = (r2, w3)"
    by (cases "as_tensor_iterate N w2 t ps xs 0")
  show ?thesis
  proof (cases "elems l = []")
    case True
    have x: "xs = map int [0..<length (data_shape_of t ps)]"
      using True by (simp add: xs_def effective_order_def)
    note u = as_tensor_default [OF t True x, of N, folded w2_def]
    show ?thesis
    proof (cases r2)
      case (Inl e)
      then show ?thesis using u it failed by simp
    next
      case (Inr res)
      then show ?thesis using u it imported by simp
    qed
  next
    case False
    have x: "xs = elems l"
      using False by (simp add: xs_def effective_order_def)
    note u = as_tensor_given [OF t False, of N ps, folded x, folded w2_def]
    show ?thesis
    proof (cases "length (data_shape_of t ps) \<noteq> length xs")
      case True
      then show ?thesis using u invalid by simp
    next
      case len: False
      show ?thesis
      proof (cases r2)
        case (Inl e)
        then show ?thesis using u it len failed by simp
      next
        case (Inr res)
        then show ?thesis using u it len imported by simp
      qed
    qed
  qed
qed

lemma to_tensor_keeps:
  "to_tensor st arr = (t, st1) \<Longrightarrow>
     next_obj st \<le> next_obj st1 \<and> unique_table st1 = unique_table st"
  by (auto simp: to_tensor_def np2CUDAcpl_def split: array.splits)

lemma get_unique_node_detaches:
  assumes "get_unique_node st ord ws ss = (n, st')"
  shows "next_obj st \<le> next_obj st'
     \<and> (\<forall>s<next_obj st. s \<in> set (node_storages (Some n) @ table_storages st') \<longrightarrow>
           s \<in> set (node_storages_list ss @ table_storages st))"
proof (cases "map_of (unique_table st) (get_unique_key ord ws ss)")
  case None
  then show ?thesis using assms
    by (fastforce simp: get_unique_node_def clone_def Let_def table_storages_def)
next
  case (Some m)
  then have "n = m" "st' = st" using assms by (auto simp: get_unique_node_def Let_def)
  moreover have "(get_unique_key ord ws ss, m) \<in> set (unique_table st)"
    using Some by (rule map_of_SomeD)
  then have "set (node_storages (Some m)) \<subseteq> set (table_storages st)"
    by (force simp: table_storages_def)
  ultimately show ?thesis by auto
qed

lemma normalized_by_one_detaching: "detaching normalized_by_one"
  unfolding detaching_def
proof (intro allI impI)
  fix st raw dw flag n w' st'
  assume a: "normalized_by_one st raw dw flag = (Some (n, w'), st')"
  obtain m where g: "get_unique_node st (order raw) (out_weights raw) (successors raw) = (m, st')"
    and n: "n = Some m" and w: "w' = dw"
    using a by (auto simp: normalized_by_one_def split: prod.splits)
  have "set (node_storages_list (successors raw)) \<subseteq> set (node_storages (Some raw))"
    by (cases raw) auto
  then show "next_obj st \<le> next_obj st'
     \<and> (\<forall>s<next_obj st. s \<in> set (storage w' # node_storages n @ table_storages st') \<longrightarrow>
           s \<in> set (storage dw # node_storages (Some raw) @ table_storages st))"
    using get_unique_node_detaches [OF g] n w by auto
qed

lemma w_vec_eq:
  "w_vec = \<lparr>core = \<lparr>unique_table =
       [([KInt 0, KInt 1000000, KInt 0, KInt 0, KInt 1000000, KSucc None, KSucc None],
         Node 9 1 0 \<lparr>storage = 8, shape = [2, 2], data = [1, 0, 0, 1]\<rparr> [None, None])],
       global_node_id = 1, next_obj = 10\<rparr>, lists = [6 \<mapsto> [0]]\<rparr>"
  by (simp add: w_vec_def get_unique_node_def get_unique_key_def get_int_key_def long_cast_def
      EPS_def torch_round_def st0_def clone_def Let_def w_1_i_def)

text \<open>
  Claim C10 (frame of the import), amended. Whatever the call returns or raises, every list
  that existed before the call, the caller's index order among them, has the elements it
  had. When the call returns, the index order of the result is a list made by the call,
  with the elements of the caller's list (or the identity order when that is empty), so
  a later mutation of either list leaves the other as it is; and the storage of the input
  tensor is not held by the weights or by any node of the result, provided that no node of
  the unique table held it before the call and that \<^verbatim>\<open>normalized\<close> brings no storage in
  from outside its arguments and the table.
\<close>

theorem as_tensor_frame:
  assumes "detaching N"
    and "as_tensor N w (Triple arr batch_shape l) = (r, w')"
    and "lid l < next_obj (core w)" and "lists w (lid l) = Some (elems l)"
  shows "(\<forall>a<next_obj (core w). lists w' a = lists w a)
     \<and> lists w' (lid l) = Some (elems l)
     \<and> (\<forall>tdd. r = Inr tdd \<longrightarrow>
          next_obj (core w) \<le> lid (index_order tdd)
          \<and> lid (index_order tdd) \<noteq> lid l
          \<and> elems (index_order tdd) = effective_order (elems l) (data_shape tdd)
          \<and> lists w' (lid (index_order tdd)) = Some (elems (index_order tdd))
          \<and> (\<forall>xs. lists (list_assign w' (lid l) xs) (lid (index_order tdd))
                     = Some (elems (index_order tdd)))
          \<and> (\<forall>xs. lists (list_assign w' (lid (index_order tdd)) xs) (lid l)
                     = Some (elems l))
          \<and> (\<forall>t. arr = Torch t \<longrightarrow> storage t < next_obj (core w) \<longrightarrow>
                 storage t \<notin> set (table_storages (core w)) \<longrightarrow>
                 storage t \<notin> set (tdd_storages tdd)))"
proof -
  obtain t st1 where t: "to_tensor (core w) arr = (t, st1)"
    by (cases "to_tensor (core w) arr")
  note k = to_tensor_keeps [OF t]
  let ?xs = "effective_order (elems l) (data_shape_of t batch_shape)"
  let ?w2 = "w\<lparr>core := st1\<lparr>next_obj := Suc (next_obj st1)\<rparr>,
               lists := (lists w)(next_obj st1 \<mapsto> ?xs)\<rparr>"
  have f2: "\<forall>a<next_obj (core w). lists ?w2 a = lists w a"
    using k by auto
  have ll: "lid l < next_obj (core w)" by (rule assms(3))
  from t show ?thesis
  proof (cases rule: as_tensor_cases [where N = N and ps = batch_shape and l = l])
    case invalid
    then have "r = Inl InvalidInput" "w' = ?w2" using assms(2) by simp_all
    then show ?thesis using f2 ll assms(4) by auto
  next
    case (failed e w3)
    then have r: "r = Inl e" "w' = w3" using assms(2) by simp_all
    have "\<forall>a<next_obj (core ?w2). lists w3 a = lists ?w2 a"
      using iterate_frame(1) [OF assms(1) failed(1)] by blast
    then have "\<forall>a<next_obj (core w). lists w3 a = lists w a"
      using k by auto
    then show ?thesis using r ll assms(4) by auto
  next
    case (imported res w3)
    let ?tdd = "res\<lparr>index_order := \<lparr>lid = next_obj st1, elems = ?xs\<rparr>,
                  data_shape := data_shape_of t batch_shape\<rparr>"
    have r: "r = Inr ?tdd" "w' = w3" using imported(2) assms(2) by simp_all
    note f = iterate_frame(1) [OF assms(1) imported(1)]
    have f3: "\<forall>a<next_obj (core ?w2). lists w3 a = lists ?w2 a"
      using f by blast
    then have frame: "\<forall>a<next_obj (core w). lists w3 a = lists w a"
      using k by auto
    have own: "lists w3 (next_obj st1) = Some ?xs"
      using f3 by simp
    have ne: "next_obj st1 \<noteq> lid l" using ll k by simp
    have keep: "lists w3 (lid l) = Some (elems l)"
      using frame ll assms(4) by simp
    have sto: "storage t' \<notin> set (tdd_storages ?tdd)"
      if a: "arr = Torch t'" and b: "storage t' < next_obj (core w)"
        and c: "storage t' \<notin> set (table_storages (core w))" for t'
    proof -
      have "st1 = core w" using t a by (simp add: to_tensor_def)
      then have "storage t' < next_obj (core ?w2)"
        and "storage t' \<notin> set (table_storages (core ?w2))"
        using b c by simp_all
      then have "storage t' \<notin> set (tdd_storages res)"
        using f [of "storage t'"] by blast
      then show ?thesis by (simp add: tdd_storages_def)
    qed
    show ?thesis
      unfolding r using frame own ne keep sto k
      by (auto simp: list_assign_def)
  qed
qed


theorem as_tensor_frame_witness:
  "detaching normalized_by_one
   \<and> lid order_swap < next_obj (core w0)
   \<and> lists w0 (lid order_swap) = Some (elems order_swap)
   \<and> storage t_eye < next_obj (core w0)
   \<and> storage t_eye \<notin> set (table_storages (core w0))
   \<and> (\<exists>tdd. fst (as_tensor normalized_by_one w0 (Triple (Torch t_eye) [] order_swap)) = Inr tdd
        \<and> lid (index_order tdd) \<noteq> lid order_swap
        \<and> elems (index_order tdd) = [1, 0]
        \<and> lists (snd (as_tensor normalized_by_one w0 (Triple (Torch t_eye) [] order_swap)))
             (lid (index_order tdd)) = Some [1, 0]
        \<and> storage t_eye \<notin> set (tdd_storages tdd))
   \<and> lists (snd (as_tensor normalized_by_one w0 (Triple (Torch t_eye) [] order_swap)))
        (lid order_swap) = Some [1, 0]"
proof -
  let ?c = "as_tensor normalized_by_one w0 (Triple (Torch t_eye) [] order_swap)"
  have h1: "detaching normalized_by_one"
    by (rule normalized_by_one_detaching)
  have h2: "lid order_swap < next_obj (core w0)"
    by (simp add: order_swap_def w0_def st0_def)
  have h3: "lists w0 (lid order_swap) = Some (elems order_swap)"
    by (simp add: order_swap_def w0_def)
  have h4: "storage t_eye < next_obj (core w0)"
    by (simp add: t_eye_def w0_def st0_def)
  have h5: "storage t_eye \<notin> set (table_storages (core w0))"
    by (simp add: table_storages_def w0_def st0_def)
  have sh: "shape (fst (to_tensor (core w0) (Torch t_eye))) = [] @ [2, 2] @ [2]"
    by (simp add: to_tensor_def t_eye_def)
  have pm: "elems order_swap = [] \<or> is_permutation (elems order_swap) (length [2, 2::nat])"
    by (simp add: is_permutation_def order_swap_def numeral_2_eq_2)
  obtain tdd where ok: "fst ?c = Inr tdd"
    using as_tensor_succeeds [OF normalized_by_one_returns sh _ pm] by auto
  have eo: "effective_order (elems order_swap) ds = [1, 0]" for ds
    by (simp add: effective_order_def order_swap_def)
  have el: "elems order_swap = [1, 0]" by (simp add: order_swap_def)
  have c: "?c = (fst ?c, snd ?c)" by simp
  from as_tensor_frame [OF h1 c h2 h3] ok h4 h5 eo el
  have "lid (index_order tdd) \<noteq> lid order_swap \<and> elems (index_order tdd) = [1, 0]
      \<and> lists (snd ?c) (lid (index_order tdd)) = Some [1, 0]
      \<and> storage t_eye \<notin> set (tdd_storages tdd)
      \<and> lists (snd ?c) (lid order_swap) = Some [1, 0]"
    by simp
  with h1 h2 h3 h4 h5 ok show ?thesis by blast
qed

text \<open>
  Claim C10 as stated fails: the caller imports the weights of \<open>vec_node\<close>, read from the
  node. The import stacks clones of the two entries, \<^verbatim>\<open>normalized\<close> looks the key up, and
  the node of the result is \<open>vec_node\<close> itself, whose weights are the input tensor.
\<close>

theorem as_tensor_shared_storage_counterexample:
  "out_weights vec_node = t_held
   \<and> lid order_axis < next_obj (core w_vec)
   \<and> lists w_vec (lid order_axis) = Some (elems order_axis)
   \<and> storage t_held < next_obj (core w_vec)
   \<and> storage t_held \<in> set (table_storages (core w_vec))
   \<and> storage t_held
       \<in> set (storages_of (as_tensor normalized_by_one w_vec
                 (Triple (Torch t_held) [] order_axis)))"
  by (simp add: vec_node_eq w_vec_eq t_held_def order_axis_def table_storages_def
      storages_of_def tdd_storages_def as_tensor_def to_tensor_def Let_def
      new_list_def data_shape_of_def as_tensor_iterate.simps as_tensor_loop.simps
      effective_order_def py_index_def split1_def resolve_dim_def narrow_def numel_def
      as_tensor_leaf_def leaf_slice_def clone_def view_def returning_def new_TDD_def
      as_tensor_stack_def stack_def construct_node_def ones_def normalized_by_one_def
      get_unique_node_def get_unique_key_def get_int_key_def long_cast_def EPS_def
      torch_round_def eval_nat_numeral)


section \<open>The round trip\<close>











end
